theory Spec2Isabelle
  imports Complex_Main "HOL-Library.List_Lexorder" "HOL-Library.Char_ord"
    "HOL-Library.AList" "HOL-Library.Sublist"
begin

section \<open>JavaScript numbers\<close>

text \<open>
  The page computes with JavaScript numbers. A number is modelled as a finite exact
  rational or one of the three special values of IEEE-754. Rounding, overflow and the
  sign of zero are not modelled: finite arithmetic is exact and there is one zero (the
  positive one, so a non-zero dividend over zero takes the dividend's sign).
  Every comparison with \<open>NaN\<close> is false, as in the language.
\<close>

datatype jsnum = Fin rat | PInf | NInf | NaN

fun jlt :: "jsnum \<Rightarrow> jsnum \<Rightarrow> bool" where
  "jlt NaN _ = False"
| "jlt _ NaN = False"
| "jlt (Fin a) (Fin b) = (a < b)"
| "jlt (Fin _) PInf = True"
| "jlt (Fin _) NInf = False"
| "jlt PInf _ = False"
| "jlt NInf NInf = False"
| "jlt NInf _ = True"

fun jle :: "jsnum \<Rightarrow> jsnum \<Rightarrow> bool" where
  "jle NaN _ = False"
| "jle _ NaN = False"
| "jle (Fin a) (Fin b) = (a \<le> b)"
| "jle (Fin _) PInf = True"
| "jle (Fin _) NInf = False"
| "jle PInf PInf = True"
| "jle PInf _ = False"
| "jle NInf _ = True"

definition jgt :: "jsnum \<Rightarrow> jsnum \<Rightarrow> bool" where
  "jgt a b = jlt b a"

definition jge :: "jsnum \<Rightarrow> jsnum \<Rightarrow> bool" where
  "jge a b = jle b a"

fun jneg :: "jsnum \<Rightarrow> jsnum" where
  "jneg (Fin a) = Fin (- a)"
| "jneg PInf = NInf"
| "jneg NInf = PInf"
| "jneg NaN = NaN"

fun jabs :: "jsnum \<Rightarrow> jsnum" where
  "jabs (Fin a) = Fin \<bar>a\<bar>"
| "jabs PInf = PInf"
| "jabs NInf = PInf"
| "jabs NaN = NaN"

fun jadd :: "jsnum \<Rightarrow> jsnum \<Rightarrow> jsnum" where
  "jadd NaN _ = NaN"
| "jadd _ NaN = NaN"
| "jadd (Fin a) (Fin b) = Fin (a + b)"
| "jadd (Fin _) PInf = PInf"
| "jadd (Fin _) NInf = NInf"
| "jadd PInf NInf = NaN"
| "jadd PInf _ = PInf"
| "jadd NInf PInf = NaN"
| "jadd NInf _ = NInf"

definition jsub :: "jsnum \<Rightarrow> jsnum \<Rightarrow> jsnum" where
  "jsub a b = jadd a (jneg b)"

fun jmul :: "jsnum \<Rightarrow> jsnum \<Rightarrow> jsnum" where
  "jmul NaN _ = NaN"
| "jmul _ NaN = NaN"
| "jmul (Fin a) (Fin b) = Fin (a * b)"
| "jmul (Fin a) PInf = (if a = 0 then NaN else if 0 < a then PInf else NInf)"
| "jmul (Fin a) NInf = (if a = 0 then NaN else if 0 < a then NInf else PInf)"
| "jmul PInf (Fin b) = (if b = 0 then NaN else if 0 < b then PInf else NInf)"
| "jmul NInf (Fin b) = (if b = 0 then NaN else if 0 < b then NInf else PInf)"
| "jmul PInf PInf = PInf"
| "jmul PInf NInf = NInf"
| "jmul NInf PInf = NInf"
| "jmul NInf NInf = PInf"

fun jdiv :: "jsnum \<Rightarrow> jsnum \<Rightarrow> jsnum" where
  "jdiv NaN _ = NaN"
| "jdiv _ NaN = NaN"
| "jdiv (Fin a) (Fin b) =
     (if b = 0 then (if a = 0 then NaN else if 0 < a then PInf else NInf)
      else Fin (a / b))"
| "jdiv (Fin _) PInf = Fin 0"
| "jdiv (Fin _) NInf = Fin 0"
| "jdiv PInf (Fin b) = (if 0 \<le> b then PInf else NInf)"
| "jdiv NInf (Fin b) = (if 0 \<le> b then NInf else PInf)"
| "jdiv PInf _ = NaN"
| "jdiv NInf _ = NaN"

fun isFinite :: "jsnum \<Rightarrow> bool" where
  "isFinite (Fin _) = True"
| "isFinite _ = False"

text \<open>Truthiness of a number: everything but zero and \<open>NaN\<close>.\<close>

fun truthy :: "jsnum \<Rightarrow> bool" where
  "truthy (Fin a) = (a \<noteq> 0)"
| "truthy NaN = False"
| "truthy _ = True"

text \<open>A nullable number (\<open>number | null\<close>) is truthy when present and truthy.\<close>

fun truthy_opt :: "jsnum option \<Rightarrow> bool" where
  "truthy_opt None = False"
| "truthy_opt (Some n) = truthy n"

text \<open>
  \<open>asNum\<close> reads a cell; every reading that is not a finite number comes out as
  \<open>NaN\<close>. The model starts from the number the cell reads as.
\<close>

definition asNum :: "jsnum \<Rightarrow> jsnum" where
  "asNum n = (if isFinite n then n else NaN)"

section \<open>Strings\<close>

text \<open>
  Strings compare by code unit, lexicographically (\<open><\<close>, \<open>>=\<close> and the default
  \<open>sort\<close> of the language); this is the order of \<open>char list\<close> here.
  \<open>slice(0, n)\<close> is \<open>take n\<close>.
\<close>

definition is_space :: "char \<Rightarrow> bool" where
  "is_space c = (c \<in> set [CHR '' '', CHR 0x09, CHR 0x0A, CHR 0x0B, CHR 0x0C, CHR 0x0D])"

definition trim :: "string \<Rightarrow> string" where
  "trim s = rev (dropWhile is_space (rev (dropWhile is_space s)))"

definition upper_char :: "char \<Rightarrow> char" where
  "upper_char c =
     (case map_of (zip ''abcdefghijklmnopqrstuvwxyz'' ''ABCDEFGHIJKLMNOPQRSTUVWXYZ'') c of
        Some u \<Rightarrow> u
      | None \<Rightarrow> c)"

definition toUpperCase :: "string \<Rightarrow> string" where
  "toUpperCase s = map upper_char s"

definition normalizeTicker :: "string \<Rightarrow> string" where
  "normalizeTicker t =
     (let sym = toUpperCase (trim t)
      in if CHR ''.'' \<in> set sym then sym else sym @ ''.US'')"

section \<open>Data\<close>

text \<open>
  A daily row of the price file. The source keeps the cells as text and reads the close
  with \<open>parseFloat\<close> where it is used; the model keeps the number read (\<open>NaN\<close> for a
  missing or unreadable cell). Only the two columns the computation reads are kept.
\<close>

record DailyRow =
  Date :: string
  Close :: jsnum

datatype currency = USD | EUR

record Row =
  rid :: int
  ticker :: string
  amount :: jsnum
  currency :: currency
  date :: string

text \<open>
  The source throws \<open>Error\<close> objects that differ in their message only; each message
  is a constructor. \<open>NoTradingDay ymd symbol\<close> is "No trading day on/after ymd for
  symbol", \<open>MissingField\<close> is "Preenche todos os campos.", and \<open>OtherError\<close> stands for
  whatever else a fetch may throw.
\<close>

datatype error =
    HistFetchFailed string
  | NoTradingDay string string
  | QuoteFetchFailed
  | FxFetchFailed
  | MissingField
  | OtherError string

record HistClose =
  dateUsed :: string
  close :: jsnum
  allRows :: "DailyRow list"

record Result =
  r_id :: int
  r_symbol :: string
  purchaseDateUsed :: string
  purchaseClose :: jsnum
  amountInvested :: jsnum
  amountOriginal :: jsnum
  r_currency :: currency
  shares :: jsnum
  latestPrice :: jsnum
  currentValueUSD :: jsnum

record MonthClose =
  mc_month :: string
  mc_close :: jsnum

record PortfolioPoint =
  month :: string
  valueUSD :: jsnum

record MonthlyPoint = PortfolioPoint +
  mom :: "jsnum option"

record PerSymbol =
  ps_symbol :: string
  ps_shares :: jsnum
  monthSeries :: "MonthClose list"

record YearExtreme =
  year :: string
  minUSD :: jsnum
  maxUSD :: jsnum
  minMonth :: string
  maxMonth :: string
  minEUR :: "jsnum option"
  maxEUR :: "jsnum option"

record MarketEvent =
  ev_id :: string
  ev_name :: string
  startMonth :: string
  endMonth :: string

text \<open>
  The performance of the portfolio over one event. The two month counts of the source
  (\<open>monthsToRecoveryFromStart\<close>, \<open>monthsToRecoveryFromTrough\<close>) are computed from
  \<open>recoveryMonth\<close> by parsing the month texts and are left out.
\<close>

record MarketEventPerf =
  pf_id :: string
  pf_name :: string
  pf_startMonth :: string
  pf_endMonth :: string
  startValue :: "jsnum option"
  endValue :: "jsnum option"
  absChange :: "jsnum option"
  pctChange :: "jsnum option"
  maxDrawdown :: "jsnum option"
  troughMonth :: "string option"
  recoveryMonth :: "string option"

text \<open>The React state of the page that the computations read and write.\<close>

record State =
  rows :: "Row list"
  useEur :: bool
  fx :: "jsnum option"
  calc_loading :: bool
  calc_results :: "Result list"
  error_msg :: "error option"
  dropThresholdPct :: jsnum
  dropsLoading :: bool
  monthlySeries :: "MonthlyPoint list"
  bigDrops :: "MonthlyPoint list"

text \<open>
  What the network answers during one run: the parsed price file of a symbol, the map of
  latest quotes and the EUR/USD rate, each of them or the error its fetch throws.
\<close>

record Net =
  histFetch :: "string \<Rightarrow> error + DailyRow list"
  quoteFetch :: "error + (string \<rightharpoonup> jsnum)"
  fxFetch :: "error + jsnum"

section \<open>Price history\<close>

text \<open>
  \<open>fetchHistoricalCloseOnOrAfter\<close>: the rows of the symbol's price file, then the first
  row (\<open>Array.find\<close>) whose date is not before the requested one.
\<close>

definition closeOnOrAfter :: "DailyRow list \<Rightarrow> string \<Rightarrow> string \<Rightarrow> error + HistClose" where
  "closeOnOrAfter rws symbol ymd =
     (case find (\<lambda>r. Date r \<ge> ymd) rws of
        None \<Rightarrow> Inl (NoTradingDay ymd symbol)
      | Some target \<Rightarrow> Inr \<lparr>dateUsed = Date target, close = Close target, allRows = rws\<rparr>)"

definition fetchHistoricalCloseOnOrAfter ::
  "(string \<Rightarrow> error + DailyRow list) \<Rightarrow> string \<Rightarrow> string \<Rightarrow> error + HistClose" where
  "fetchHistoricalCloseOnOrAfter fetch symbol ymd =
     (case fetch symbol of
        Inl e \<Rightarrow> Inl e
      | Inr rws \<Rightarrow> closeOnOrAfter rws symbol ymd)"

text \<open>
  \<open>groupByMonthEnd\<close>: a \<open>Map\<close> from month to row, filled in the order of the rows; a
  later row of a month replaces the earlier one and keeps its place in the map. An
  empty start date is falsy and filters nothing.
\<close>

definition groupByMonthEnd :: "DailyRow list \<Rightarrow> string \<Rightarrow> MonthClose list" where
  "groupByMonthEnd rws startDateYmd =
     (let byMonth =
            foldl (\<lambda>m r. if startDateYmd \<noteq> [] \<and> Date r < startDateYmd then m
                          else AList.update (take 7 (Date r)) r m) [] rws
      in map (\<lambda>(m, r). \<lparr>mc_month = m, mc_close = Close r\<rparr>) byMonth)"

section \<open>Valuing the positions\<close>

definition missing_field :: "Row \<Rightarrow> bool" where
  "missing_field r = (ticker r = [] \<or> \<not> truthy (amount r) \<or> date r = [])"

text \<open>The amount in USD, written twice in the source with the same text.\<close>

definition amountUSD_of :: "Row \<Rightarrow> jsnum option \<Rightarrow> jsnum" where
  "amountUSD_of r eurusdNow =
     (if currency r = EUR
      then (case eurusdNow of
              Some rate \<Rightarrow> if truthy rate then jmul (amount r) rate else amount r
            | None \<Rightarrow> amount r)
      else amount r)"

text \<open>The body of the loop of \<open>calculate\<close> for one row.\<close>

definition calc_row ::
  "(string \<Rightarrow> error + DailyRow list) \<Rightarrow> (string \<rightharpoonup> jsnum) \<Rightarrow> jsnum option \<Rightarrow> Row
     \<Rightarrow> error + Result" where
  "calc_row fetch quoteMap eurusdNow r =
     (let symbol = normalizeTicker (ticker r)
      in if missing_field r then Inl MissingField
         else case fetchHistoricalCloseOnOrAfter fetch symbol (date r) of
                Inl e \<Rightarrow> Inl e
              | Inr hist \<Rightarrow>
                  (let amountUSD = amountUSD_of r eurusdNow;
                       shs = jdiv amountUSD (close hist);
                       fallback = (case rev (allRows hist) of
                                     [] \<Rightarrow> NaN
                                   | lastRow # _ \<Rightarrow> asNum (Close lastRow));
                       curPrice = (case quoteMap (toUpperCase symbol) of
                                     None \<Rightarrow> fallback
                                   | Some c \<Rightarrow> if isFinite c then c else fallback);
                       curValueUSD = jmul shs curPrice
                   in Inr \<lparr>r_id = rid r, r_symbol = symbol,
                            purchaseDateUsed = dateUsed hist,
                            purchaseClose = close hist,
                            amountInvested = amountUSD,
                            amountOriginal = amount r,
                            r_currency = currency r,
                            shares = shs,
                            latestPrice = curPrice,
                            currentValueUSD = curValueUSD\<rparr>))"

text \<open>The loop over the rows: the first error ends it, as the \<open>throw\<close> does.\<close>

fun calc_loop ::
  "(string \<Rightarrow> error + DailyRow list) \<Rightarrow> (string \<rightharpoonup> jsnum) \<Rightarrow> jsnum option \<Rightarrow> Row list
     \<Rightarrow> Result list \<Rightarrow> error + Result list" where
  "calc_loop fetch quoteMap eurusdNow [] results = Inr results"
| "calc_loop fetch quoteMap eurusdNow (r # rs) results =
     (case calc_row fetch quoteMap eurusdNow r of
        Inl e \<Rightarrow> Inl e
      | Inr res \<Rightarrow> calc_loop fetch quoteMap eurusdNow rs (results @ [res]))"

definition calc_failed :: "error \<Rightarrow> State \<Rightarrow> State" where
  "calc_failed e st = st\<lparr>calc_loading := False, calc_results := [], error_msg := Some e\<rparr>"

text \<open>
  \<open>calculate\<close>. The two fetches run together under \<open>Promise.all\<close>; when both fail the
  model reports the quotes' error. Inside the run \<open>fx\<close> is the value of the state at
  the start: \<open>setFx\<close> shows only in the state returned.
\<close>

definition calculate :: "Net \<Rightarrow> State \<Rightarrow> State" where
  "calculate net st =
     (let st1 = st\<lparr>error_msg := None, calc_loading := True, calc_results := []\<rparr>;
          needFx = (useEur st \<or> (\<exists>x \<in> set (rows st). currency x = EUR))
      in case quoteFetch net of
           Inl e \<Rightarrow> calc_failed e st1
         | Inr quoteMap \<Rightarrow>
             (case (if needFx then map_sum (\<lambda>e. e) Some (fxFetch net) else Inr None) of
                Inl e \<Rightarrow> calc_failed e st1
              | Inr eurusd \<Rightarrow>
                  (let st2 = (if useEur st \<and> truthy_opt eurusd then st1\<lparr>fx := eurusd\<rparr> else st1);
                       eurusdNow = (case eurusd of
                                      Some x \<Rightarrow> Some x
                                    | None \<Rightarrow> if useEur st then fx st else None)
                   in case calc_loop (histFetch net) quoteMap eurusdNow (rows st) [] of
                        Inl e \<Rightarrow> calc_failed e st2
                      | Inr results \<Rightarrow> st2\<lparr>calc_loading := False, calc_results := results\<rparr>)))"

section \<open>The monthly series and the drops\<close>

text \<open>The body of the loop of \<open>computeMonthlyDrops\<close> for one row.\<close>

definition drops_row ::
  "(string \<Rightarrow> error + DailyRow list) \<Rightarrow> jsnum option \<Rightarrow> Row \<Rightarrow> error + PerSymbol" where
  "drops_row fetch eurusdNow r =
     (let symbol = normalizeTicker (ticker r)
      in if missing_field r then Inl MissingField
         else case fetchHistoricalCloseOnOrAfter fetch symbol (date r) of
                Inl e \<Rightarrow> Inl e
              | Inr hist \<Rightarrow>
                  (let amountUSD = amountUSD_of r eurusdNow;
                       shs = jdiv amountUSD (close hist)
                   in Inr \<lparr>ps_symbol = symbol, ps_shares = shs,
                            monthSeries = groupByMonthEnd (allRows hist) (date r)\<rparr>))"

fun drops_loop ::
  "(string \<Rightarrow> error + DailyRow list) \<Rightarrow> jsnum option \<Rightarrow> Row list \<Rightarrow> PerSymbol list
     \<Rightarrow> error + PerSymbol list" where
  "drops_loop fetch eurusdNow [] perSymbol = Inr perSymbol"
| "drops_loop fetch eurusdNow (r # rs) perSymbol =
     (case drops_row fetch eurusdNow r of
        Inl e \<Rightarrow> Inl e
      | Inr s \<Rightarrow> drops_loop fetch eurusdNow rs (perSymbol @ [s]))"

text \<open>A \<open>Set\<close> keeps its members in the order they were first added.\<close>

definition set_add :: "'a list \<Rightarrow> 'a \<Rightarrow> 'a list" where
  "set_add xs x = (if x \<in> set xs then xs else xs @ [x])"

definition monthsSorted :: "PerSymbol list \<Rightarrow> string list" where
  "monthsSorted perSymbol =
     sort (foldl (\<lambda>allMonths s. foldl (\<lambda>a m. set_add a (mc_month m)) allMonths (monthSeries s))
             [] perSymbol)"

definition monthValue :: "PerSymbol list \<Rightarrow> string \<Rightarrow> jsnum" where
  "monthValue perSymbol m =
     foldl (\<lambda>v s. case find (\<lambda>x. mc_month x = m) (monthSeries s) of
                     Some rc \<Rightarrow> jadd v (jmul (ps_shares s) (mc_close rc))
                   | None \<Rightarrow> v)
       (Fin 0) perSymbol"

definition portfolioSeries :: "PerSymbol list \<Rightarrow> PortfolioPoint list" where
  "portfolioSeries perSymbol =
     filter (\<lambda>p. jgt (valueUSD p) (Fin 0))
       (map (\<lambda>m. \<lparr>month = m, valueUSD = monthValue perSymbol m\<rparr>) (monthsSorted perSymbol))"

definition withMoM :: "PortfolioPoint list \<Rightarrow> MonthlyPoint list" where
  "withMoM ps =
     map (\<lambda>i. let p = ps ! i
              in if i = 0 then \<lparr>month = month p, valueUSD = valueUSD p, mom = None\<rparr>
                 else let prev = valueUSD (ps ! (i - 1))
                      in \<lparr>month = month p, valueUSD = valueUSD p,
                          mom = (if jgt prev (Fin 0)
                                 then Some (jsub (jdiv (valueUSD p) prev) (Fin 1))
                                 else None)\<rparr>)
       [0 ..< length ps]"

definition drops_of :: "jsnum \<Rightarrow> MonthlyPoint list \<Rightarrow> MonthlyPoint list" where
  "drops_of thresholdPct ms =
     (let threshold = jdiv (jneg (jabs thresholdPct)) (Fin 100)
      in filter (\<lambda>p. case mom p of None \<Rightarrow> False | Some c \<Rightarrow> jle c threshold) ms)"

definition computeMonthlyDrops :: "Net \<Rightarrow> State \<Rightarrow> State" where
  "computeMonthlyDrops net st =
     (let st1 = st\<lparr>error_msg := None, dropsLoading := True\<rparr>
      in case drops_loop (histFetch net) (fx st) (rows st) [] of
           Inl e \<Rightarrow> st1\<lparr>error_msg := Some e, monthlySeries := [], bigDrops := [],
                         dropsLoading := False\<rparr>
         | Inr perSymbol \<Rightarrow>
             (let ms = withMoM (portfolioSeries perSymbol)
              in st1\<lparr>monthlySeries := ms, bigDrops := drops_of (dropThresholdPct st) ms,
                      dropsLoading := False\<rparr>))"

section \<open>Annual extremes\<close>

text \<open>
  \<open>yearExtremes\<close> keeps a \<open>Map\<close> from year to a record that it updates in place: an
  association list in insertion order, where an update keeps the key's place. The
  comparison of the final \<open>sort\<close> is \<open>localeCompare\<close> on the year texts, taken as the
  code-unit order (the two agree on texts of digits).
\<close>

definition eur_of :: "jsnum option \<Rightarrow> jsnum \<Rightarrow> jsnum option \<Rightarrow> jsnum option" where
  "eur_of rate v otherwise =
     (case rate of
        Some r \<Rightarrow> if truthy r then Some (jdiv v r) else otherwise
      | None \<Rightarrow> otherwise)"

definition ye_update :: "jsnum option \<Rightarrow> MonthlyPoint \<Rightarrow> YearExtreme \<Rightarrow> YearExtreme" where
  "ye_update rate p current =
     (let c1 = (if jlt (valueUSD p) (minUSD current)
                then current\<lparr>minUSD := valueUSD p, minMonth := month p,
                             minEUR := eur_of rate (valueUSD p) (minEUR current)\<rparr>
                else current)
      in if jgt (valueUSD p) (maxUSD c1)
         then c1\<lparr>maxUSD := valueUSD p, maxMonth := month p,
                 maxEUR := eur_of rate (valueUSD p) (maxEUR c1)\<rparr>
         else c1)"

definition ye_step ::
  "jsnum option \<Rightarrow> (string \<times> YearExtreme) list \<Rightarrow> MonthlyPoint \<Rightarrow> (string \<times> YearExtreme) list" where
  "ye_step rate mp p =
     (let yr = take 4 (month p)
      in case map_of mp yr of
           None \<Rightarrow>
             AList.update yr
               \<lparr>year = yr, minUSD = valueUSD p, maxUSD = valueUSD p,
                minMonth = month p, maxMonth = month p,
                minEUR = eur_of rate (valueUSD p) None,
                maxEUR = eur_of rate (valueUSD p) None\<rparr> mp
         | Some current \<Rightarrow> AList.update yr (ye_update rate p current) mp)"

definition yearExtremes :: "MonthlyPoint list \<Rightarrow> jsnum option \<Rightarrow> YearExtreme list" where
  "yearExtremes ms rate =
     (if ms = [] then []
      else sort_key year (map snd (foldl (ye_step rate) [] ms)))"

section \<open>Market events\<close>

text \<open>The catalogue of events; the names are written in ASCII.\<close>

definition MARKET_EVENTS :: "MarketEvent list" where
  "MARKET_EVENTS =
     [\<lparr>ev_id = ''dotcom'', ev_name = ''Bolha dot-com'',
       startMonth = ''2000-03'', endMonth = ''2002-10''\<rparr>,
      \<lparr>ev_id = ''gfc'', ev_name = ''Crise financeira 2008'',
       startMonth = ''2007-10'', endMonth = ''2009-03''\<rparr>,
      \<lparr>ev_id = ''covid'', ev_name = ''Crash COVID-19'',
       startMonth = ''2020-02'', endMonth = ''2020-04''\<rparr>,
      \<lparr>ev_id = ''inflation2022'', ev_name = ''Bear market inflacao 2022'',
       startMonth = ''2021-11'', endMonth = ''2022-10''\<rparr>]"

text \<open>The variables of the drawdown loop.\<close>

record Scan =
  peak :: jsnum
  peakMonth :: string
  troughValue :: jsnum
  sc_troughMonth :: string
  worstDD :: jsnum

definition scan_init :: "MonthlyPoint \<Rightarrow> Scan" where
  "scan_init p0 =
     \<lparr>peak = valueUSD p0, peakMonth = month p0, troughValue = valueUSD p0,
      sc_troughMonth = month p0, worstDD = Fin 0\<rparr>"

definition scan_step :: "Scan \<Rightarrow> MonthlyPoint \<Rightarrow> Scan" where
  "scan_step s p =
     (let s1 = (if jgt (valueUSD p) (peak s)
                then s\<lparr>peak := valueUSD p, peakMonth := month p\<rparr> else s)
      in if jgt (peak s1) (Fin 0)
         then (let dd = jsub (jdiv (valueUSD p) (peak s1)) (Fin 1)
               in if jlt dd (worstDD s1)
                  then s1\<lparr>worstDD := dd, troughValue := valueUSD p, sc_troughMonth := month p\<rparr>
                  else s1)
         else s1)"

definition drawdown_scan :: "MonthlyPoint \<Rightarrow> MonthlyPoint list \<Rightarrow> Scan" where
  "drawdown_scan p0 inRange = foldl scan_step (scan_init p0) inRange"

fun findIndex :: "('a \<Rightarrow> bool) \<Rightarrow> 'a list \<Rightarrow> nat option" where
  "findIndex P [] = None"
| "findIndex P (x # xs) = (if P x then Some 0 else map_option Suc (findIndex P xs))"

text \<open>The search for the recovery: from the month after the trough on, in the whole series.\<close>

definition recovery_search :: "MonthlyPoint list \<Rightarrow> string \<Rightarrow> jsnum \<Rightarrow> string option" where
  "recovery_search ms trMonth pk =
     (case findIndex (\<lambda>m. month m = trMonth) ms of
        None \<Rightarrow> None
      | Some idxTrough \<Rightarrow>
          map_option month (find (\<lambda>p. jge (valueUSD p) pk) (drop (idxTrough + 1) ms)))"

definition in_range :: "MarketEvent \<Rightarrow> MonthlyPoint list \<Rightarrow> MonthlyPoint list" where
  "in_range ev ms = filter (\<lambda>p. month p \<ge> startMonth ev \<and> month p \<le> endMonth ev) ms"

definition event_perf :: "MonthlyPoint list \<Rightarrow> MarketEvent \<Rightarrow> MarketEventPerf" where
  "event_perf ms ev =
     (case in_range ev ms of
        [] \<Rightarrow>
          \<lparr>pf_id = ev_id ev, pf_name = ev_name ev,
           pf_startMonth = startMonth ev, pf_endMonth = endMonth ev,
           startValue = None, endValue = None, absChange = None, pctChange = None,
           maxDrawdown = None, troughMonth = None, recoveryMonth = None\<rparr>
      | p0 # rest \<Rightarrow>
          (let inRange = p0 # rest;
               startV = valueUSD p0;
               endV = valueUSD (last inRange);
               absC = jsub endV startV;
               pctC = (if jgt startV (Fin 0) then Some (jdiv absC startV) else None);
               s = drawdown_scan p0 inRange
           in \<lparr>pf_id = ev_id ev, pf_name = ev_name ev,
                pf_startMonth = startMonth ev, pf_endMonth = endMonth ev,
                startValue = Some startV, endValue = Some endV,
                absChange = Some absC, pctChange = pctC,
                maxDrawdown = Some (worstDD s),
                troughMonth = Some (sc_troughMonth s),
                recoveryMonth = recovery_search ms (sc_troughMonth s) (peak s)\<rparr>))"

definition eventPerformances :: "MonthlyPoint list \<Rightarrow> MarketEventPerf list" where
  "eventPerformances ms = (if ms = [] then [] else map (event_perf ms) MARKET_EVENTS)"

section \<open>Notions of the specification and sample inputs\<close>

text \<open>
  The predicate of the drop detector as the specification words it: the change is
  defined and at most \<open>-t/100\<close>.
\<close>

definition is_drop :: "jsnum \<Rightarrow> MonthlyPoint \<Rightarrow> bool" where
  "is_drop t p = (case mom p of None \<Rightarrow> False | Some c \<Rightarrow> jle c (jdiv (jneg t) (Fin 100)))"

text \<open>The monthly values 100, 90, 95, 70 of the specification's scenario B.\<close>

definition scenarioB :: "PortfolioPoint list" where
  "scenarioB =
     [\<lparr>month = ''2020-01'', valueUSD = Fin 100\<rparr>, \<lparr>month = ''2020-02'', valueUSD = Fin 90\<rparr>,
      \<lparr>month = ''2020-03'', valueUSD = Fin 95\<rparr>, \<lparr>month = ''2020-04'', valueUSD = Fin 70\<rparr>]"

text \<open>A price file of two trading days.\<close>

definition two_days :: "DailyRow list" where
  "two_days = [\<lparr>Date = ''2000-01-03'', Close = Fin 10\<rparr>, \<lparr>Date = ''2000-01-04'', Close = Fin 11\<rparr>]"

text \<open>Valuing a position fails: a field is missing, or the lookup of its purchase day fails.\<close>

definition position_fails :: "(string \<Rightarrow> error + DailyRow list) \<Rightarrow> Row \<Rightarrow> bool" where
  "position_fails fetch r =
     (missing_field r
      \<or> isl (fetchHistoricalCloseOnOrAfter fetch (normalizeTicker (ticker r)) (date r)))"

text \<open>Sample inputs: price files, positions, network answers and page states.\<close>

definition zero_close :: "DailyRow list" where
  "zero_close = [\<lparr>Date = ''2000-01-03'', Close = Fin 0\<rparr>]"

definition eur_row :: Row where
  "eur_row = \<lparr>rid = 1, ticker = ''NVDA'', amount = Fin 1000, currency = EUR, date = ''2000-01-01''\<rparr>"

definition usd_row :: Row where
  "usd_row = \<lparr>rid = 2, ticker = ''msft'', amount = Fin 500, currency = USD, date = ''2000-01-04''\<rparr>"

definition blank_row :: Row where
  "blank_row = \<lparr>rid = 3, ticker = '''', amount = Fin 1000, currency = EUR, date = ''2015-01-02''\<rparr>"

definition net_no_rate :: Net where
  "net_no_rate = \<lparr>histFetch = (\<lambda>s. Inr two_days), quoteFetch = Inr Map.empty, fxFetch = Inr NaN\<rparr>"

definition state_of :: "Row list \<Rightarrow> State" where
  "state_of rs =
     \<lparr>rows = rs, useEur = True, fx = None, calc_loading = False, calc_results = [],
      error_msg = None, dropThresholdPct = Fin 15, dropsLoading = False,
      monthlySeries = [], bigDrops = []\<rparr>"

text \<open>
  One holding of one share over five months, the third of them with a close of zero:
  the values of scenario B around a month that is dropped.
\<close>

definition one_holding :: "PerSymbol list" where
  "one_holding =
     [\<lparr>ps_symbol = ''X.US'', ps_shares = Fin 1,
       monthSeries =
         [\<lparr>mc_month = ''2020-01'', mc_close = Fin 100\<rparr>,
          \<lparr>mc_month = ''2020-02'', mc_close = Fin 90\<rparr>,
          \<lparr>mc_month = ''2020-03'', mc_close = Fin 0\<rparr>,
          \<lparr>mc_month = ''2020-04'', mc_close = Fin 95\<rparr>,
          \<lparr>mc_month = ''2020-05'', mc_close = Fin 70\<rparr>]\<rparr>]"

text \<open>
  The variables of the drawdown loop once the point of index \<open>i\<close> has been read, the
  running peak in effect there, and the decline of that point from that peak.
\<close>

definition scan_upto :: "MonthlyPoint \<Rightarrow> MonthlyPoint list \<Rightarrow> nat \<Rightarrow> Scan" where
  "scan_upto p0 xs i = foldl scan_step (scan_init p0) (take (Suc i) xs)"

definition peak_at :: "MonthlyPoint \<Rightarrow> MonthlyPoint list \<Rightarrow> nat \<Rightarrow> jsnum" where
  "peak_at p0 xs i = peak (scan_upto p0 xs i)"

definition decline_at :: "MonthlyPoint \<Rightarrow> MonthlyPoint list \<Rightarrow> nat \<Rightarrow> jsnum" where
  "decline_at p0 xs i = jsub (jdiv (valueUSD (xs ! i)) (peak_at p0 xs i)) (Fin 1)"

text \<open>The first event of the catalogue, the dot-com window 2000-03 to 2002-10.\<close>

definition dotcom :: MarketEvent where
  "dotcom = MARKET_EVENTS ! 0"

text \<open>
  Monthly series inside that window: the values 100, 150, 120, 80, 200 of scenario C;
  a rise followed by a dip (50, 100, 60), whose lowest value comes first; and a fall
  followed by a rebound above the old peak (100, 50, 120, 200).
\<close>

definition scenarioC :: "MonthlyPoint list" where
  "scenarioC = withMoM
     [\<lparr>month = ''2000-03'', valueUSD = Fin 100\<rparr>, \<lparr>month = ''2000-04'', valueUSD = Fin 150\<rparr>,
      \<lparr>month = ''2000-05'', valueUSD = Fin 120\<rparr>, \<lparr>month = ''2000-06'', valueUSD = Fin 80\<rparr>,
      \<lparr>month = ''2000-07'', valueUSD = Fin 200\<rparr>]"

definition rise_then_dip :: "MonthlyPoint list" where
  "rise_then_dip = withMoM
     [\<lparr>month = ''2000-03'', valueUSD = Fin 50\<rparr>, \<lparr>month = ''2000-04'', valueUSD = Fin 100\<rparr>,
      \<lparr>month = ''2000-05'', valueUSD = Fin 60\<rparr>]"

definition rebound :: "MonthlyPoint list" where
  "rebound = withMoM
     [\<lparr>month = ''2000-03'', valueUSD = Fin 100\<rparr>, \<lparr>month = ''2000-04'', valueUSD = Fin 50\<rparr>,
      \<lparr>month = ''2000-05'', valueUSD = Fin 120\<rparr>, \<lparr>month = ''2000-06'', valueUSD = Fin 200\<rparr>]"

text \<open>
  The peak the specification's recovery search compares with: the running peak in
  effect when the worst drawdown was recorded. It follows the loop and keeps the peak of
  the step that last lowered the worst drawdown (the value of the first point before any).
\<close>

definition peak_at_drawdown :: "MonthlyPoint \<Rightarrow> MonthlyPoint list \<Rightarrow> jsnum" where
  "peak_at_drawdown p0 xs =
     snd (foldl (\<lambda>(s, pk) p. let s' = scan_step s p
                              in (s', if worstDD s' = worstDD s then pk else peak s'))
            (scan_init p0, valueUSD p0) xs)"

text \<open>The points of a year, in the order of the series.\<close>

definition year_points :: "MonthlyPoint list \<Rightarrow> string \<Rightarrow> MonthlyPoint list" where
  "year_points ms y = filter (\<lambda>p. take 4 (month p) = y) ms"

text \<open>
  An entry of the annual table fits the points of its year: its minimum and maximum
  bound every value, and each is the value of the first point that has it, whose month
  the entry names.
\<close>

definition fits_year :: "MonthlyPoint list \<Rightarrow> YearExtreme \<Rightarrow> bool" where
  "fits_year ys e =
     (list_all (\<lambda>p. jle (minUSD e) (valueUSD p) \<and> jle (valueUSD p) (maxUSD e)) ys
      \<and> map_option month (find (\<lambda>p. valueUSD p = minUSD e) ys) = Some (minMonth e)
      \<and> map_option month (find (\<lambda>p. valueUSD p = maxUSD e) ys) = Some (maxMonth e))"

text \<open>A series over two years, with the lowest and the highest value of 2020 each met twice.\<close>

definition two_years :: "MonthlyPoint list" where
  "two_years = withMoM
     [\<lparr>month = ''2019-12'', valueUSD = Fin 95\<rparr>, \<lparr>month = ''2020-01'', valueUSD = Fin 100\<rparr>,
      \<lparr>month = ''2020-02'', valueUSD = Fin 90\<rparr>, \<lparr>month = ''2020-03'', valueUSD = Fin 90\<rparr>,
      \<lparr>month = ''2020-04'', valueUSD = Fin 100\<rparr>]"

text \<open>
  A position and a price file that give the series \<open>rebound\<close>: 100 USD bought at a
  close of 100 is one share, and the month-end closes are 100, 50, 120 and 200.
\<close>

definition rebound_state :: State where
  "rebound_state =
     state_of [\<lparr>rid = 1, ticker = ''ACME'', amount = Fin 100, currency = USD,
                date = ''2000-03-01''\<rparr>]"

definition rebound_net :: Net where
  "rebound_net =
     \<lparr>histFetch = (\<lambda>s. Inr [\<lparr>Date = ''2000-03-31'', Close = Fin 100\<rparr>,
                              \<lparr>Date = ''2000-04-28'', Close = Fin 50\<rparr>,
                              \<lparr>Date = ''2000-05-31'', Close = Fin 120\<rparr>,
                              \<lparr>Date = ''2000-06-30'', Close = Fin 200\<rparr>]),
      quoteFetch = Inr Map.empty, fxFetch = Inr NaN\<rparr>"

text \<open>The network when the request for the EUR/USD rate fails.\<close>

definition net_fx_down :: Net where
  "net_fx_down =
     \<lparr>histFetch = (\<lambda>s. Inr two_days), quoteFetch = Inr Map.empty, fxFetch = Inl FxFetchFailed\<rparr>"

section \<open>Properties of the numbers and helper facts\<close>

lemma jle_trans: "jle a b \<Longrightarrow> jle b c \<Longrightarrow> jle a c"
  by (cases a; cases b; cases c) auto

lemma jlt_imp_jle: "jlt a b \<Longrightarrow> jle a b"
  by (cases a; cases b) auto

lemma jabs_pos: "jlt (Fin 0) t \<Longrightarrow> jabs t = t"
  by (cases t) auto

lemma jabs_idem: "jabs (jabs t) = jabs t"
  by (cases t) auto

lemma threshold_mono:
  "jlt (Fin 0) t1 \<Longrightarrow> jle t1 t2 \<Longrightarrow> jle (jdiv (jneg t2) (Fin 100)) (jdiv (jneg t1) (Fin 100))"
  by (cases t1; cases t2) (auto simp: divide_le_cancel)

section \<open>The drop detector\<close>

lemma drops_of_pos: "jlt (Fin 0) t \<Longrightarrow> drops_of t ms = filter (is_drop t) ms"
  by (simp add: drops_of_def jabs_pos is_drop_def [abs_def])

lemma is_drop_mono: "jlt (Fin 0) t1 \<Longrightarrow> jle t1 t2 \<Longrightarrow> is_drop t2 p \<Longrightarrow> is_drop t1 p"
  by (auto simp: is_drop_def split: option.splits intro: jle_trans threshold_mono)

lemma filter_weaker: "(\<And>x. P x \<Longrightarrow> Q x) \<Longrightarrow> filter P xs = filter P (filter Q xs)"
  by (induction xs) auto

lemma withMoM_scenarioB:
  "withMoM scenarioB =
     [\<lparr>month = ''2020-01'', valueUSD = Fin 100, mom = None\<rparr>,
      \<lparr>month = ''2020-02'', valueUSD = Fin 90, mom = Some (Fin (- 1 / 10))\<rparr>,
      \<lparr>month = ''2020-03'', valueUSD = Fin 95, mom = Some (Fin (1 / 18))\<rparr>,
      \<lparr>month = ''2020-04'', valueUSD = Fin 70, mom = Some (Fin (- 5 / 19))\<rparr>]"
  by (simp add: withMoM_def scenarioB_def jgt_def jsub_def upt_rec)

text \<open>
  C5. For a positive threshold \<open>t1\<close> the drops are exactly the points of the series,
  in its order, whose change is defined and at most \<open>-t1/100\<close>; and for a threshold
  \<open>t2\<close> not below \<open>t1\<close> the drops at \<open>t2\<close> are a subsequence of the drops at \<open>t1\<close>,
  so there are never more of them.
\<close>

theorem drops_threshold:
  assumes "jlt (Fin 0) t1" and "jle t1 t2"
  shows "drops_of t1 ms = filter (is_drop t1) ms
       \<and> subseq (drops_of t1 ms) ms
       \<and> subseq (drops_of t2 ms) (drops_of t1 ms)
       \<and> length (drops_of t2 ms) \<le> length (drops_of t1 ms)"
proof -
  have p2: "jlt (Fin 0) t2" using assms by (cases t1; cases t2) auto
  have e1: "drops_of t1 ms = filter (is_drop t1) ms" using assms(1) by (rule drops_of_pos)
  have e2: "drops_of t2 ms = filter (is_drop t2) ms" using p2 by (rule drops_of_pos)
  have "filter (is_drop t2) ms = filter (is_drop t2) (filter (is_drop t1) ms)"
    by (rule filter_weaker) (rule is_drop_mono [OF assms])
  then have e3: "drops_of t2 ms = filter (is_drop t2) (drops_of t1 ms)"
    using e1 e2 by simp
  have s: "subseq (drops_of t2 ms) (drops_of t1 ms)"
    unfolding e3 by (rule subseq_filter_left)
  have l: "length (drops_of t2 ms) \<le> length (drops_of t1 ms)"
    unfolding e3 by (rule length_filter_le)
  show ?thesis using e1 s l by simp
qed

theorem drops_threshold_witness:
  "jlt (Fin 0) (Fin 5) \<and> jle (Fin 5) (Fin 15)
   \<and> drops_of (Fin 5) (withMoM scenarioB) = filter (is_drop (Fin 5)) (withMoM scenarioB)
   \<and> map month (drops_of (Fin 5) (withMoM scenarioB)) = [''2020-02'', ''2020-04'']
   \<and> map month (drops_of (Fin 15) (withMoM scenarioB)) = [''2020-04'']
   \<and> subseq (drops_of (Fin 15) (withMoM scenarioB)) (drops_of (Fin 5) (withMoM scenarioB))
   \<and> length (drops_of (Fin 15) (withMoM scenarioB)) \<le> length (drops_of (Fin 5) (withMoM scenarioB))"
proof -
  have h1: "jlt (Fin 0) (Fin 5)" by simp
  have h2: "jle (Fin 5) (Fin 15)" by simp
  have m1: "map month (drops_of (Fin 5) (withMoM scenarioB)) = [''2020-02'', ''2020-04'']"
    by (simp add: withMoM_scenarioB drops_of_def)
  have m2: "map month (drops_of (Fin 15) (withMoM scenarioB)) = [''2020-04'']"
    by (simp add: withMoM_scenarioB drops_of_def)
  show ?thesis
    using drops_threshold [OF h1 h2, of "withMoM scenarioB"] h1 h2 m1 m2 by blast
qed

text \<open>
  C10. For every series and every threshold value, of either sign and of any size, the
  drops computed with \<open>t\<close> are the drops computed with \<open>|t|\<close>.
\<close>

theorem drops_abs: "drops_of t ms = drops_of (jabs t) ms"
  by (simp add: drops_of_def jabs_idem)

section \<open>The purchase day\<close>

lemma find_first_sorted:
  assumes "find P xs = Some x" "sorted (map f xs)" "y \<in> set xs" "P y"
  shows "f x \<le> f y"
proof -
  from assms(1) obtain i where i: "i < length xs" "P (xs ! i)" "x = xs ! i" "\<forall>j<i. \<not> P (xs ! j)"
    by (auto simp: find_Some_iff)
  from assms(3) obtain k where k: "k < length xs" "y = xs ! k" by (auto simp: in_set_conv_nth)
  have "i \<le> k" using i(4) k assms(4) by (meson not_le_imp_less)
  then have "map f xs ! i \<le> map f xs ! k"
    using assms(2) k(1) by (simp add: sorted_iff_nth_mono del: nth_map)
  then show ?thesis using i k by simp
qed

text \<open>
  C3. On the rows of a fetched price file the lookup returns the first row whose date is
  not before the requested one, and fails, with the no-trading-day error and no other,
  exactly when no row has such a date. On a file in ascending order that row has the
  earliest such date. For the file of the single day 2000-01-03 with close 10 and the
  purchase date 2000-01-01 the close used is 10 and the date used is 2000-01-03.
\<close>

theorem closeOnOrAfter_first:
  assumes "fetch symbol = Inr rws"
  shows "(fetchHistoricalCloseOnOrAfter fetch symbol ymd = Inl (NoTradingDay ymd symbol)
            \<longleftrightarrow> (\<forall>r \<in> set rws. \<not> Date r \<ge> ymd))
       \<and> (\<forall>e. fetchHistoricalCloseOnOrAfter fetch symbol ymd = Inl e \<longrightarrow> e = NoTradingDay ymd symbol)
       \<and> (\<forall>h. fetchHistoricalCloseOnOrAfter fetch symbol ymd = Inr h \<longrightarrow>
             (\<exists>i < length rws. Date (rws ! i) \<ge> ymd \<and> (\<forall>j < i. \<not> Date (rws ! j) \<ge> ymd)
                \<and> dateUsed h = Date (rws ! i) \<and> close h = Close (rws ! i) \<and> allRows h = rws)
           \<and> (sorted (map Date rws) \<longrightarrow> (\<forall>r \<in> set rws. Date r \<ge> ymd \<longrightarrow> dateUsed h \<le> Date r)))
       \<and> fetchHistoricalCloseOnOrAfter (\<lambda>s. Inr [\<lparr>Date = ''2000-01-03'', Close = Fin 10\<rparr>])
             symbol ''2000-01-01''
           = Inr \<lparr>dateUsed = ''2000-01-03'', close = Fin 10,
                  allRows = [\<lparr>Date = ''2000-01-03'', Close = Fin 10\<rparr>]\<rparr>"
proof -
  let ?f = "fetchHistoricalCloseOnOrAfter fetch symbol ymd"
  have eq: "?f = closeOnOrAfter rws symbol ymd"
    using assms by (simp add: fetchHistoricalCloseOnOrAfter_def)
  have a: "?f = Inl (NoTradingDay ymd symbol) \<longleftrightarrow> (\<forall>r \<in> set rws. \<not> Date r \<ge> ymd)"
  proof -
    have "(find (\<lambda>r. Date r \<ge> ymd) rws = None) = (\<forall>r \<in> set rws. \<not> Date r \<ge> ymd)"
      by (auto simp: find_None_iff)
    then show ?thesis
      unfolding eq closeOnOrAfter_def by (cases "find (\<lambda>r. Date r \<ge> ymd) rws") auto
  qed
  have b: "\<forall>e. ?f = Inl e \<longrightarrow> e = NoTradingDay ymd symbol"
    unfolding eq closeOnOrAfter_def by (auto split: option.splits)
  have c: "\<exists>i < length rws. Date (rws ! i) \<ge> ymd \<and> (\<forall>j < i. \<not> Date (rws ! j) \<ge> ymd)
                \<and> dateUsed h = Date (rws ! i) \<and> close h = Close (rws ! i) \<and> allRows h = rws"
    if "?f = Inr h" for h
    using that unfolding eq closeOnOrAfter_def
    by (auto simp: find_Some_iff split: option.splits)
  have d: "dateUsed h \<le> Date r"
    if "?f = Inr h" "sorted (map Date rws)" "r \<in> set rws" "Date r \<ge> ymd" for h r
  proof -
    from that(1) obtain t where t: "find (\<lambda>r. Date r \<ge> ymd) rws = Some t" "dateUsed h = Date t"
      unfolding eq closeOnOrAfter_def by (auto split: option.splits)
    show ?thesis using find_first_sorted [OF t(1) that(2) that(3) that(4)] t(2) by simp
  qed
  have e: "fetchHistoricalCloseOnOrAfter (\<lambda>s. Inr [\<lparr>Date = ''2000-01-03'', Close = Fin 10\<rparr>])
             symbol ''2000-01-01''
           = Inr \<lparr>dateUsed = ''2000-01-03'', close = Fin 10,
                  allRows = [\<lparr>Date = ''2000-01-03'', Close = Fin 10\<rparr>]\<rparr>"
    by (simp add: fetchHistoricalCloseOnOrAfter_def closeOnOrAfter_def)
  show ?thesis using a b c d e by blast
qed

theorem closeOnOrAfter_first_witness:
  "(\<lambda>s. Inr two_days) ''NVDA.US'' = (Inr two_days :: error + DailyRow list)
   \<and> sorted (map Date two_days)
   \<and> fetchHistoricalCloseOnOrAfter (\<lambda>s. Inr two_days) ''NVDA.US'' ''2000-01-04''
       = Inr \<lparr>dateUsed = ''2000-01-04'', close = Fin 11, allRows = two_days\<rparr>
   \<and> (\<exists>i < length two_days. Date (two_days ! i) \<ge> ''2000-01-04''
        \<and> (\<forall>j < i. \<not> Date (two_days ! j) \<ge> ''2000-01-04'')
        \<and> Date (two_days ! i) = ''2000-01-04'' \<and> Close (two_days ! i) = Fin 11)
   \<and> ''2000-01-04'' \<le> Date (two_days ! 1)"
proof -
  have h: "(\<lambda>s. Inr two_days) ''NVDA.US'' = (Inr two_days :: error + DailyRow list)" by simp
  have s: "sorted (map Date two_days)" by (simp add: two_days_def)
  have v: "fetchHistoricalCloseOnOrAfter (\<lambda>s. Inr two_days) ''NVDA.US'' ''2000-01-04''
       = Inr \<lparr>dateUsed = ''2000-01-04'', close = Fin 11, allRows = two_days\<rparr>"
    by (simp add: fetchHistoricalCloseOnOrAfter_def closeOnOrAfter_def two_days_def)
  note t = closeOnOrAfter_first [where ymd = "''2000-01-04''", OF h]
  from t v have
    "(\<exists>i < length two_days. Date (two_days ! i) \<ge> ''2000-01-04''
        \<and> (\<forall>j < i. \<not> Date (two_days ! j) \<ge> ''2000-01-04'')
        \<and> dateUsed \<lparr>dateUsed = ''2000-01-04'', close = Fin 11, allRows = two_days\<rparr>
            = Date (two_days ! i)
        \<and> close \<lparr>dateUsed = ''2000-01-04'', close = Fin 11, allRows = two_days\<rparr>
            = Close (two_days ! i)
        \<and> allRows \<lparr>dateUsed = ''2000-01-04'', close = Fin 11, allRows = two_days\<rparr> = two_days)
     \<and> (sorted (map Date two_days) \<longrightarrow>
          (\<forall>r \<in> set two_days. Date r \<ge> ''2000-01-04'' \<longrightarrow>
             dateUsed \<lparr>dateUsed = ''2000-01-04'', close = Fin 11, allRows = two_days\<rparr> \<le> Date r))"
    by blast
  then have
    "(\<exists>i < length two_days. Date (two_days ! i) \<ge> ''2000-01-04''
        \<and> (\<forall>j < i. \<not> Date (two_days ! j) \<ge> ''2000-01-04'')
        \<and> Date (two_days ! i) = ''2000-01-04'' \<and> Close (two_days ! i) = Fin 11)
     \<and> (\<forall>r \<in> set two_days. Date r \<ge> ''2000-01-04'' \<longrightarrow> ''2000-01-04'' \<le> Date r)"
    using s by simp metis
  moreover have "two_days ! 1 \<in> set two_days" "Date (two_days ! 1) \<ge> ''2000-01-04''"
    by (simp_all add: two_days_def)
  ultimately show ?thesis using h s v by blast
qed

section \<open>Valuing a position\<close>

lemma div_zero_not_finite: "\<not> isFinite (jdiv x (Fin 0))"
  by (cases x) auto

lemma div_NaN_not_finite: "\<not> isFinite (jdiv x NaN)"
  by (cases x) auto

lemma amountUSD_of_no_rate:
  "currency r = EUR \<Longrightarrow> \<not> truthy_opt eurusdNow \<Longrightarrow> amountUSD_of r eurusdNow = amount r"
  by (cases eurusdNow) (auto simp: amountUSD_of_def)

lemma hist_found:
  "fetch symbol = Inr rws \<Longrightarrow> find (\<lambda>d. Date d \<ge> ymd) rws = Some target \<Longrightarrow>
   fetchHistoricalCloseOnOrAfter fetch symbol ymd
     = Inr \<lparr>dateUsed = Date target, close = Close target, allRows = rws\<rparr>"
  by (simp add: fetchHistoricalCloseOnOrAfter_def closeOnOrAfter_def)

lemma calc_row_found:
  assumes "\<not> missing_field r" "fetch (normalizeTicker (ticker r)) = Inr rws"
    "find (\<lambda>d. Date d \<ge> date r) rws = Some target"
  shows "\<exists>res. calc_row fetch quoteMap eurusdNow r = Inr res
        \<and> purchaseDateUsed res = Date target \<and> purchaseClose res = Close target
        \<and> amountInvested res = amountUSD_of r eurusdNow
        \<and> shares res = jdiv (amountUSD_of r eurusdNow) (Close target)"
  using assms(1) hist_found [of fetch "normalizeTicker (ticker r)" rws "date r" target, OF assms(2) assms(3)]
  by (simp add: calc_row_def Let_def)

lemma drops_row_found:
  assumes "\<not> missing_field r" "fetch (normalizeTicker (ticker r)) = Inr rws"
    "find (\<lambda>d. Date d \<ge> date r) rws = Some target"
  shows "\<exists>s. drops_row fetch eurusdNow r = Inr s
        \<and> ps_shares s = jdiv (amountUSD_of r eurusdNow) (Close target)"
  using assms(1) hist_found [of fetch "normalizeTicker (ticker r)" rws "date r" target, OF assms(2) assms(3)]
  by (simp add: drops_row_def Let_def)

lemma calc_row_fails: "isl (calc_row fetch quoteMap eurusdNow r) = position_fails fetch r"
  by (simp add: calc_row_def position_fails_def Let_def split: sum.splits)

lemma drops_row_fails: "isl (drops_row fetch eurusdNow r) = position_fails fetch r"
  by (simp add: drops_row_def position_fails_def Let_def split: sum.splits)

lemma calc_row_id: "calc_row fetch quoteMap eurusdNow r = Inr res \<Longrightarrow> r_id res = rid r"
  by (auto simp: calc_row_def Let_def split: sum.splits if_splits)

lemma calc_loop_fails:
  "isl (calc_loop fetch quoteMap eurusdNow rs acc) = (\<exists>r \<in> set rs. position_fails fetch r)"
proof (induction rs arbitrary: acc)
  case Nil
  show ?case by simp
next
  case (Cons r rs)
  show ?case
  proof (cases "calc_row fetch quoteMap eurusdNow r")
    case (Inl e)
    then have "position_fails fetch r" using calc_row_fails [of fetch quoteMap eurusdNow r] by simp
    then show ?thesis using Inl by simp
  next
    case (Inr res)
    then have "\<not> position_fails fetch r" using calc_row_fails [of fetch quoteMap eurusdNow r] by simp
    then show ?thesis using Inr Cons.IH [of "acc @ [res]"] by simp
  qed
qed

lemma calc_loop_ids:
  "calc_loop fetch quoteMap eurusdNow rs acc = Inr results \<Longrightarrow>
   map r_id results = map r_id acc @ map rid rs"
proof (induction rs arbitrary: acc)
  case Nil
  then show ?case by simp
next
  case (Cons r rs)
  then show ?case
    by (cases "calc_row fetch quoteMap eurusdNow r") (auto dest: calc_row_id)
qed

lemma drops_loop_fails:
  "isl (drops_loop fetch eurusdNow rs acc) = (\<exists>r \<in> set rs. position_fails fetch r)"
proof (induction rs arbitrary: acc)
  case Nil
  show ?case by simp
next
  case (Cons r rs)
  show ?case
  proof (cases "drops_row fetch eurusdNow r")
    case (Inl e)
    then have "position_fails fetch r" using drops_row_fails [of fetch eurusdNow r] by simp
    then show ?thesis using Inl by simp
  next
    case (Inr s)
    then have "\<not> position_fails fetch r" using drops_row_fails [of fetch eurusdNow r] by simp
    then show ?thesis using Inr Cons.IH [of "acc @ [s]"] by simp
  qed
qed

lemma calculate_cases:
  "(error_msg (calculate net st) \<noteq> None \<and> calc_results (calculate net st) = [])
   \<or> (error_msg (calculate net st) = None
       \<and> map r_id (calc_results (calculate net st)) = map rid (rows st)
       \<and> \<not> (\<exists>r \<in> set (rows st). position_fails (histFetch net) r))"
proof (cases "quoteFetch net")
  case (Inl e)
  then show ?thesis by (simp add: calculate_def calc_failed_def Let_def)
next
  case q: (Inr quoteMap)
  let ?needFx = "useEur st \<or> (\<exists>x \<in> set (rows st). currency x = EUR)"
  show ?thesis
  proof (cases "if ?needFx then map_sum (\<lambda>e. e) Some (fxFetch net) else Inr None")
    case (Inl e)
    then show ?thesis using q by (simp add: calculate_def calc_failed_def Let_def)
  next
    case f: (Inr eurusd)
    let ?now = "case eurusd of Some x \<Rightarrow> Some x | None \<Rightarrow> if useEur st then fx st else None"
    show ?thesis
    proof (cases "calc_loop (histFetch net) quoteMap ?now (rows st) []")
      case (Inl e)
      then show ?thesis using q f by (simp add: calculate_def calc_failed_def Let_def)
    next
      case (Inr results)
      have nf: "\<not> (\<exists>r \<in> set (rows st). position_fails (histFetch net) r)"
        using calc_loop_fails [of "histFetch net" quoteMap ?now "rows st" "[]"] Inr by simp
      have ids: "map r_id results = map rid (rows st)"
        using calc_loop_ids [OF Inr] by simp
      show ?thesis using q f Inr nf ids by (simp add: calculate_def Let_def)
    qed
  qed
qed

lemma drops_cases:
  "(\<exists>r \<in> set (rows st). position_fails (histFetch net) r) \<Longrightarrow>
     error_msg (computeMonthlyDrops net st) \<noteq> None
     \<and> monthlySeries (computeMonthlyDrops net st) = []
     \<and> bigDrops (computeMonthlyDrops net st) = []"
  using drops_loop_fails [of "histFetch net" "fx st" "rows st" "[]"]
  by (cases "drops_loop (histFetch net) (fx st) (rows st) []")
     (auto simp: computeMonthlyDrops_def Let_def)

lemma drops_error_clears:
  "error_msg (computeMonthlyDrops net st) \<noteq> None \<Longrightarrow>
     monthlySeries (computeMonthlyDrops net st) = [] \<and> bigDrops (computeMonthlyDrops net st) = []"
  by (cases "drops_loop (histFetch net) (fx st) (rows st) []")
     (auto simp: computeMonthlyDrops_def Let_def)

lemmas ticker_simps =
  normalizeTicker_def toUpperCase_def trim_def upper_char_def is_space_def

lemmas run_simps =
  calculate_def computeMonthlyDrops_def calc_failed_def calc_row_def drops_row_def
  fetchHistoricalCloseOnOrAfter_def closeOnOrAfter_def missing_field_def amountUSD_of_def
  asNum_def Let_def

lemma eur_row_no_rate_run:
  "error_msg (calculate net_no_rate (state_of [eur_row])) = None
   \<and> map amountInvested (calc_results (calculate net_no_rate (state_of [eur_row]))) = [Fin 1000]"
  by (simp add: run_simps ticker_simps net_no_rate_def state_of_def eur_row_def two_days_def)

lemma eur_row_no_rate_drops:
  "error_msg (computeMonthlyDrops net_no_rate (state_of [eur_row])) = None
   \<and> map valueUSD (monthlySeries (computeMonthlyDrops net_no_rate (state_of [eur_row]))) = [Fin 1100]"
  by (simp add: run_simps ticker_simps net_no_rate_def state_of_def eur_row_def two_days_def
      groupByMonthEnd_def portfolioSeries_def monthsSorted_def monthValue_def set_add_def
      withMoM_def drops_of_def jgt_def)

lemma calc_row_amounts:
  "calc_row fetch quoteMap eurusdNow r = Inr res \<Longrightarrow>
   amountInvested res = amountUSD_of r eurusdNow \<and> amountOriginal res = amount r
   \<and> r_currency res = currency r"
  by (auto simp: calc_row_def Let_def split: sum.splits if_splits)

lemma calc_loop_amounts:
  assumes "\<not> truthy_opt eurusdNow"
    and "calc_loop fetch quoteMap eurusdNow rs acc = Inr results"
    and "\<forall>res \<in> set acc. r_currency res = EUR \<longrightarrow> amountInvested res = amountOriginal res"
  shows "\<forall>res \<in> set results. r_currency res = EUR \<longrightarrow> amountInvested res = amountOriginal res"
  using assms(2,3)
proof (induction rs arbitrary: acc)
  case Nil
  then show ?case by simp
next
  case (Cons r rs)
  show ?case
  proof (cases "calc_row fetch quoteMap eurusdNow r")
    case (Inl e)
    then show ?thesis using Cons.prems(1) by simp
  next
    case (Inr res)
    have lp: "calc_loop fetch quoteMap eurusdNow rs (acc @ [res]) = Inr results"
      using Cons.prems(1) Inr by simp
    have "r_currency res = EUR \<longrightarrow> amountInvested res = amountOriginal res"
      using calc_row_amounts [OF Inr] amountUSD_of_no_rate [OF _ assms(1), of r] by simp
    then have "\<forall>x \<in> set (acc @ [res]). r_currency x = EUR \<longrightarrow> amountInvested x = amountOriginal x"
      using Cons.prems(2) by simp
    then show ?thesis using Cons.IH [OF lp] by blast
  qed
qed

text \<open>
  A run of \<open>calculate\<close> with an EUR row whose rate request answers with a rate that
  is \<open>NaN\<close> or zero: the run succeeds exactly when no position fails, and every EUR
  result carries the amount entered.
\<close>

lemma calculate_unusable_rate:
  assumes eur: "\<exists>x \<in> set (rows st). currency x = EUR"
    and q: "quoteFetch net = Inr quotes" and f: "fxFetch net = Inr rate" and nt: "\<not> truthy rate"
  shows "(error_msg (calculate net st) = None
            \<longleftrightarrow> \<not> (\<exists>x \<in> set (rows st). position_fails (histFetch net) x))
       \<and> (\<forall>res \<in> set (calc_results (calculate net st)).
             r_currency res = EUR \<longrightarrow> amountInvested res = amountOriginal res)"
proof (cases "calc_loop (histFetch net) quotes (Some rate) (rows st) []")
  case (Inl e)
  have c: "calculate net st
      = calc_failed e (st\<lparr>error_msg := None, calc_loading := True, calc_results := []\<rparr>)"
    using eur q f nt Inl by (simp add: calculate_def Let_def)
  have "\<exists>x \<in> set (rows st). position_fails (histFetch net) x"
    using calc_loop_fails [of "histFetch net" quotes "Some rate" "rows st" "[]"] Inl by simp
  then show ?thesis unfolding c by (simp add: calc_failed_def)
next
  case (Inr results)
  have c: "calculate net st
      = st\<lparr>error_msg := None, calc_loading := True, calc_results := [],
            calc_loading := False, calc_results := results\<rparr>"
    using eur q f nt Inr by (simp add: calculate_def Let_def)
  have nf: "\<not> (\<exists>x \<in> set (rows st). position_fails (histFetch net) x)"
    using calc_loop_fails [of "histFetch net" quotes "Some rate" "rows st" "[]"] Inr by simp
  have nt': "\<not> truthy_opt (Some rate)" using nt by simp
  have am: "\<forall>res \<in> set results. r_currency res = EUR \<longrightarrow> amountInvested res = amountOriginal res"
    using calc_loop_amounts [OF nt' Inr] by simp
  show ?thesis unfolding c using nf am by simp
qed

text \<open>When the request for the rate itself fails, the run ends with an error and no results.\<close>

lemma calculate_fx_failed:
  assumes eur: "\<exists>x \<in> set (rows st). currency x = EUR" and f: "fxFetch net = Inl e"
  shows "calc_results (calculate net st) = []
       \<and> (error_msg (calculate net st) = Some e
            \<or> (\<exists>e'. quoteFetch net = Inl e' \<and> error_msg (calculate net st) = Some e'))"
proof (cases "quoteFetch net")
  case (Inl e')
  then show ?thesis by (simp add: calculate_def calc_failed_def Let_def)
next
  case (Inr quotes)
  then show ?thesis using eur f by (simp add: calculate_def calc_failed_def Let_def)
qed

text \<open>
  C8, as the code has it. For a position in EUR, when the rate that reaches the valuation
  is absent or reads as \<open>NaN\<close> or zero, the amount in USD is the amount entered and
  the valuation raises no error on that account: with its fields present and a trading
  day on or after the purchase date the position is valued with that amount, in
  \<open>calculate\<close> and in \<open>computeMonthlyDrops\<close> alike, and a run of \<open>calculate\<close> whose
  rate request answers with such a rate succeeds whenever no position fails, every EUR
  result carrying the amount entered. An EUR position of 1000 without a rate has the
  amount 1000 in USD. When the request for the rate itself fails, \<open>calculate\<close> ends
  with that error (or the one of the quotes) and no results.
\<close>

theorem eur_without_rate:
  assumes "currency r = EUR" and "\<not> truthy_opt eurusdNow"
  shows "amountUSD_of r eurusdNow = amount r
       \<and> (\<forall>rws target.
             \<not> missing_field r \<and> fetch (normalizeTicker (ticker r)) = Inr rws
               \<and> find (\<lambda>d. Date d \<ge> date r) rws = Some target \<longrightarrow>
             (\<exists>res. calc_row fetch quoteMap eurusdNow r = Inr res
                    \<and> amountInvested res = amount r
                    \<and> shares res = jdiv (amount r) (Close target))
             \<and> (\<exists>s. drops_row fetch eurusdNow r = Inr s
                    \<and> ps_shares s = jdiv (amount r) (Close target)))
       \<and> amountUSD_of eur_row None = Fin 1000
       \<and> ((\<exists>x \<in> set (rows st). currency x = EUR) \<and> quoteFetch net = Inr quotes
            \<and> fxFetch net = Inr rate \<and> \<not> truthy rate \<longrightarrow>
            (error_msg (calculate net st) = None
               \<longleftrightarrow> \<not> (\<exists>x \<in> set (rows st). position_fails (histFetch net) x))
            \<and> (\<forall>res \<in> set (calc_results (calculate net st)).
                  r_currency res = EUR \<longrightarrow> amountInvested res = amountOriginal res))
       \<and> ((\<exists>x \<in> set (rows st). currency x = EUR) \<and> fxFetch net = Inl e \<longrightarrow>
            calc_results (calculate net st) = []
            \<and> (error_msg (calculate net st) = Some e
                 \<or> (\<exists>e'. quoteFetch net = Inl e' \<and> error_msg (calculate net st) = Some e')))"
proof -
  have a: "amountUSD_of r eurusdNow = amount r"
    using assms by (rule amountUSD_of_no_rate)
  have b: "\<exists>res. calc_row fetch quoteMap eurusdNow r = Inr res
                    \<and> amountInvested res = amount r
                    \<and> shares res = jdiv (amount r) (Close target)"
    if "\<not> missing_field r" "fetch (normalizeTicker (ticker r)) = Inr rws"
       "find (\<lambda>d. Date d \<ge> date r) rws = Some target" for rws target
    using calc_row_found [where fetch = fetch and r = r and rws = rws and target = target, OF that, of quoteMap eurusdNow] a by auto
  have c: "\<exists>s. drops_row fetch eurusdNow r = Inr s
                    \<and> ps_shares s = jdiv (amount r) (Close target)"
    if "\<not> missing_field r" "fetch (normalizeTicker (ticker r)) = Inr rws"
       "find (\<lambda>d. Date d \<ge> date r) rws = Some target" for rws target
    using drops_row_found [where fetch = fetch and r = r and rws = rws and target = target, OF that, of eurusdNow] a by auto
  have bc: "\<forall>rws target.
             \<not> missing_field r \<and> fetch (normalizeTicker (ticker r)) = Inr rws
               \<and> find (\<lambda>d. Date d \<ge> date r) rws = Some target \<longrightarrow>
             (\<exists>res. calc_row fetch quoteMap eurusdNow r = Inr res
                    \<and> amountInvested res = amount r
                    \<and> shares res = jdiv (amount r) (Close target))
             \<and> (\<exists>s. drops_row fetch eurusdNow r = Inr s
                    \<and> ps_shares s = jdiv (amount r) (Close target))"
    using b c by blast
  have d: "amountUSD_of eur_row None = Fin 1000"
    by (simp add: amountUSD_of_def eur_row_def)
  have g: "(\<exists>x \<in> set (rows st). currency x = EUR) \<and> quoteFetch net = Inr quotes
            \<and> fxFetch net = Inr rate \<and> \<not> truthy rate \<longrightarrow>
            (error_msg (calculate net st) = None
               \<longleftrightarrow> \<not> (\<exists>x \<in> set (rows st). position_fails (histFetch net) x))
            \<and> (\<forall>res \<in> set (calc_results (calculate net st)).
                  r_currency res = EUR \<longrightarrow> amountInvested res = amountOriginal res)"
  proof
    assume h: "(\<exists>x \<in> set (rows st). currency x = EUR) \<and> quoteFetch net = Inr quotes
            \<and> fxFetch net = Inr rate \<and> \<not> truthy rate"
    show "(error_msg (calculate net st) = None
               \<longleftrightarrow> \<not> (\<exists>x \<in> set (rows st). position_fails (histFetch net) x))
            \<and> (\<forall>res \<in> set (calc_results (calculate net st)).
                  r_currency res = EUR \<longrightarrow> amountInvested res = amountOriginal res)"
      by (rule calculate_unusable_rate [of st net quotes rate]) (use h in blast)+
  qed
  have k: "(\<exists>x \<in> set (rows st). currency x = EUR) \<and> fxFetch net = Inl e \<longrightarrow>
            calc_results (calculate net st) = []
            \<and> (error_msg (calculate net st) = Some e
                 \<or> (\<exists>e'. quoteFetch net = Inl e' \<and> error_msg (calculate net st) = Some e'))"
  proof
    assume h: "(\<exists>x \<in> set (rows st). currency x = EUR) \<and> fxFetch net = Inl e"
    show "calc_results (calculate net st) = []
            \<and> (error_msg (calculate net st) = Some e
                 \<or> (\<exists>e'. quoteFetch net = Inl e' \<and> error_msg (calculate net st) = Some e'))"
      by (rule calculate_fx_failed [of st net e]) (use h in blast)+
  qed
  show ?thesis by (intro conjI a bc d g k)
qed

theorem eur_without_rate_witness:
  "currency eur_row = EUR \<and> \<not> truthy_opt (Some NaN)
   \<and> amountUSD_of eur_row (Some NaN) = Fin 1000
   \<and> (\<exists>res. calc_row (\<lambda>s. Inr two_days) Map.empty (Some NaN) eur_row = Inr res
          \<and> amountInvested res = Fin 1000 \<and> shares res = Fin 100)
   \<and> error_msg (calculate net_no_rate (state_of [eur_row])) = None
   \<and> map amountInvested (calc_results (calculate net_no_rate (state_of [eur_row]))) = [Fin 1000]
   \<and> error_msg (computeMonthlyDrops net_no_rate (state_of [eur_row])) = None
   \<and> calc_results (calculate net_fx_down (state_of [eur_row])) = []
   \<and> error_msg (calculate net_fx_down (state_of [eur_row])) = Some FxFetchFailed"
proof -
  have h1: "currency eur_row = EUR" by (simp add: eur_row_def)
  have h2: "\<not> truthy_opt (Some NaN)" by simp
  have am: "amount eur_row = Fin 1000" by (simp add: eur_row_def)
  have pre: "\<not> missing_field eur_row
      \<and> (\<lambda>s. Inr two_days) (normalizeTicker (ticker eur_row)) = (Inr two_days :: error + DailyRow list)
      \<and> find (\<lambda>d. Date d \<ge> date eur_row) two_days = Some \<lparr>Date = ''2000-01-03'', Close = Fin 10\<rparr>"
    by (simp add: missing_field_def eur_row_def two_days_def)
  note t = eur_without_rate [OF h1 h2, of "\<lambda>s. Inr two_days" Map.empty
      "state_of [eur_row]" net_fx_down Map.empty NaN FxFetchFailed]
  have t1: "amountUSD_of eur_row (Some NaN) = amount eur_row" using t by (rule conjunct1)
  have a: "amountUSD_of eur_row (Some NaN) = Fin 1000" using t1 am by simp
  from t pre have
    "\<exists>res. calc_row (\<lambda>s. Inr two_days) Map.empty (Some NaN) eur_row = Inr res
          \<and> amountInvested res = amount eur_row
          \<and> shares res = jdiv (amount eur_row) (Close \<lparr>Date = ''2000-01-03'', Close = Fin 10\<rparr>)"
    by blast
  then have b: "\<exists>res. calc_row (\<lambda>s. Inr two_days) Map.empty (Some NaN) eur_row = Inr res
          \<and> amountInvested res = Fin 1000 \<and> shares res = Fin 100"
    using am by simp
  have t5: "(\<exists>x \<in> set (rows (state_of [eur_row])). currency x = EUR)
            \<and> fxFetch net_fx_down = Inl FxFetchFailed \<longrightarrow>
            calc_results (calculate net_fx_down (state_of [eur_row])) = []
            \<and> (error_msg (calculate net_fx_down (state_of [eur_row])) = Some FxFetchFailed
                 \<or> (\<exists>e'. quoteFetch net_fx_down = Inl e'
                        \<and> error_msg (calculate net_fx_down (state_of [eur_row])) = Some e'))"
    using t by (rule conjunct2 [THEN conjunct2, THEN conjunct2, THEN conjunct2])
  have p5: "(\<exists>x \<in> set (rows (state_of [eur_row])). currency x = EUR)
            \<and> fxFetch net_fx_down = Inl FxFetchFailed"
    by (simp add: state_of_def eur_row_def net_fx_down_def)
  have qn: "\<not> (\<exists>e'. quoteFetch net_fx_down = Inl e')" by (simp add: net_fx_down_def)
  have c: "calc_results (calculate net_fx_down (state_of [eur_row])) = []
      \<and> error_msg (calculate net_fx_down (state_of [eur_row])) = Some FxFetchFailed"
    using t5 p5 qn by blast
  show ?thesis
    using h1 h2 a b eur_row_no_rate_run eur_row_no_rate_drops c by blast
qed

text \<open>
  The claim C8 as the specification states it fails: when the request for the rate
  fails, \<open>calculate\<close> on a single EUR position ends with the error of that request
  and values nothing.
\<close>

theorem fx_fetch_failed_counterexample:
  "currency eur_row = EUR
   \<and> fxFetch net_fx_down = Inl FxFetchFailed
   \<and> error_msg (calculate net_fx_down (state_of [eur_row])) = Some FxFetchFailed
   \<and> calc_results (calculate net_fx_down (state_of [eur_row])) = []"
  by (simp add: run_simps net_fx_down_def state_of_def eur_row_def)

text \<open>
  C1, as the code has it. The valuation does not look at the purchase close: with the
  fields present and a trading day on or after the purchase date it succeeds for every
  close, the share count is the quotient as the language computes it, and for a close
  that is zero or \<open>NaN\<close> (a missing or unreadable cell) that quotient is not a finite
  number.
\<close>

theorem shares_unchecked:
  assumes "\<not> missing_field r" and "fetch (normalizeTicker (ticker r)) = Inr rws"
    and "find (\<lambda>d. Date d \<ge> date r) rws = Some target"
  shows "(\<exists>res. calc_row fetch quoteMap eurusdNow r = Inr res
            \<and> purchaseClose res = Close target
            \<and> shares res = jdiv (amountUSD_of r eurusdNow) (Close target))
       \<and> (\<exists>s. drops_row fetch eurusdNow r = Inr s
            \<and> ps_shares s = jdiv (amountUSD_of r eurusdNow) (Close target))
       \<and> (Close target = Fin 0 \<or> Close target = NaN \<longrightarrow>
            \<not> isFinite (jdiv (amountUSD_of r eurusdNow) (Close target)))"
proof -
  have a: "\<exists>res. calc_row fetch quoteMap eurusdNow r = Inr res
            \<and> purchaseClose res = Close target
            \<and> shares res = jdiv (amountUSD_of r eurusdNow) (Close target)"
    using calc_row_found [where fetch = fetch and r = r and rws = rws and target = target, OF assms, of quoteMap eurusdNow] by blast
  have b: "\<exists>s. drops_row fetch eurusdNow r = Inr s
            \<and> ps_shares s = jdiv (amountUSD_of r eurusdNow) (Close target)"
    using drops_row_found [where fetch = fetch and r = r and rws = rws and target = target, OF assms, of eurusdNow] by blast
  have c: "Close target = Fin 0 \<or> Close target = NaN \<longrightarrow>
            \<not> isFinite (jdiv (amountUSD_of r eurusdNow) (Close target))"
    using div_zero_not_finite div_NaN_not_finite by auto
  show ?thesis using a b c by blast
qed

theorem shares_unchecked_witness:
  "\<not> missing_field eur_row
   \<and> (\<lambda>s. Inr zero_close) (normalizeTicker (ticker eur_row)) = (Inr zero_close :: error + DailyRow list)
   \<and> find (\<lambda>d. Date d \<ge> date eur_row) zero_close = Some \<lparr>Date = ''2000-01-03'', Close = Fin 0\<rparr>
   \<and> (\<exists>res. calc_row (\<lambda>s. Inr zero_close) Map.empty None eur_row = Inr res
          \<and> purchaseClose res = Fin 0 \<and> shares res = PInf)
   \<and> (\<exists>s. drops_row (\<lambda>s. Inr zero_close) None eur_row = Inr s \<and> ps_shares s = PInf)
   \<and> \<not> isFinite (jdiv (amountUSD_of eur_row None) (Fin 0))"
proof -
  have h1: "\<not> missing_field eur_row" by (simp add: missing_field_def eur_row_def)
  have h2: "(\<lambda>s. Inr zero_close) (normalizeTicker (ticker eur_row))
              = (Inr zero_close :: error + DailyRow list)" by simp
  have h3: "find (\<lambda>d. Date d \<ge> date eur_row) zero_close
              = Some \<lparr>Date = ''2000-01-03'', Close = Fin 0\<rparr>"
    by (simp add: eur_row_def zero_close_def)
  have q: "jdiv (amountUSD_of eur_row None) (Fin 0) = PInf"
    by (simp add: amountUSD_of_def eur_row_def)
  show ?thesis
    using shares_unchecked [OF h1 h2 h3, of Map.empty None] h1 h2 h3 q by simp
qed

text \<open>
  The claim C1 as the specification states it fails: a position whose purchase close is
  zero is valued without any error, with an infinite share count.
\<close>

theorem invalid_price_counterexample:
  "calc_row (\<lambda>s. Inr zero_close) Map.empty None eur_row
     = Inr \<lparr>r_id = 1, r_symbol = ''NVDA.US'', purchaseDateUsed = ''2000-01-03'',
            purchaseClose = Fin 0, amountInvested = Fin 1000, amountOriginal = Fin 1000,
            r_currency = EUR, shares = PInf, latestPrice = Fin 0, currentValueUSD = NaN\<rparr>
   \<and> \<not> isl (drops_row (\<lambda>s. Inr zero_close) None eur_row)"
  by (simp add: run_simps ticker_simps eur_row_def zero_close_def)

section \<open>All positions or none\<close>

text \<open>
  C9. When valuing any position of the list fails, \<open>calculate\<close> ends with an error and
  no results at all, and \<open>computeMonthlyDrops\<close> ends with an error, an empty monthly
  series and no drops. Whatever the reason of an error, the results are empty; and a
  run without error has valued every position, in the order of the list.
\<close>

theorem all_or_nothing:
  "((\<exists>r \<in> set (rows st). position_fails (histFetch net) r) \<longrightarrow>
       error_msg (calculate net st) \<noteq> None \<and> calc_results (calculate net st) = []
       \<and> error_msg (computeMonthlyDrops net st) \<noteq> None
       \<and> monthlySeries (computeMonthlyDrops net st) = []
       \<and> bigDrops (computeMonthlyDrops net st) = [])
   \<and> (error_msg (calculate net st) \<noteq> None \<longrightarrow> calc_results (calculate net st) = [])
   \<and> (error_msg (calculate net st) = None \<longrightarrow>
        map r_id (calc_results (calculate net st)) = map rid (rows st))
   \<and> (error_msg (computeMonthlyDrops net st) \<noteq> None \<longrightarrow>
        monthlySeries (computeMonthlyDrops net st) = []
        \<and> bigDrops (computeMonthlyDrops net st) = [])"
proof -
  have a: "error_msg (calculate net st) \<noteq> None \<longrightarrow> calc_results (calculate net st) = []"
    using calculate_cases [of net st] by auto
  have b: "error_msg (calculate net st) = None \<longrightarrow>
        map r_id (calc_results (calculate net st)) = map rid (rows st)"
    using calculate_cases [of net st] by auto
  have c: "(\<exists>r \<in> set (rows st). position_fails (histFetch net) r) \<longrightarrow>
       error_msg (calculate net st) \<noteq> None \<and> calc_results (calculate net st) = []"
    using calculate_cases [of net st] by auto
  have d: "(\<exists>r \<in> set (rows st). position_fails (histFetch net) r) \<longrightarrow>
       error_msg (computeMonthlyDrops net st) \<noteq> None
       \<and> monthlySeries (computeMonthlyDrops net st) = []
       \<and> bigDrops (computeMonthlyDrops net st) = []"
    using drops_cases [of st net] by auto
  have e: "error_msg (computeMonthlyDrops net st) \<noteq> None \<longrightarrow>
        monthlySeries (computeMonthlyDrops net st) = []
        \<and> bigDrops (computeMonthlyDrops net st) = []"
    using drops_error_clears [of net st] by auto
  show ?thesis using a b c d e by simp
qed

theorem all_or_nothing_witness:
  "(\<exists>r \<in> set (rows (state_of [eur_row, blank_row])). position_fails (histFetch net_no_rate) r)
   \<and> error_msg (calculate net_no_rate (state_of [eur_row, blank_row])) = Some MissingField
   \<and> calc_results (calculate net_no_rate (state_of [eur_row, blank_row])) = []
   \<and> monthlySeries (computeMonthlyDrops net_no_rate (state_of [eur_row, blank_row])) = []
   \<and> bigDrops (computeMonthlyDrops net_no_rate (state_of [eur_row, blank_row])) = []
   \<and> error_msg (calculate net_no_rate (state_of [eur_row, usd_row])) = None
   \<and> map r_id (calc_results (calculate net_no_rate (state_of [eur_row, usd_row]))) = [1, 2]"
proof -
  have f: "\<exists>r \<in> set (rows (state_of [eur_row, blank_row])). position_fails (histFetch net_no_rate) r"
    by (simp add: state_of_def position_fails_def missing_field_def blank_row_def)
  have e: "error_msg (calculate net_no_rate (state_of [eur_row, blank_row])) = Some MissingField"
    by (simp add: run_simps ticker_simps net_no_rate_def state_of_def eur_row_def blank_row_def
        two_days_def)
  have ok: "error_msg (calculate net_no_rate (state_of [eur_row, usd_row])) = None"
    by (simp add: run_simps ticker_simps net_no_rate_def state_of_def eur_row_def usd_row_def
        two_days_def)
  have rs: "map rid (rows (state_of [eur_row, usd_row])) = [1, 2]"
    by (simp add: state_of_def eur_row_def usd_row_def)
  note t1 = all_or_nothing [of "state_of [eur_row, blank_row]" net_no_rate]
  note t2 = all_or_nothing [of "state_of [eur_row, usd_row]" net_no_rate]
  from t1 f have
    "calc_results (calculate net_no_rate (state_of [eur_row, blank_row])) = []
     \<and> monthlySeries (computeMonthlyDrops net_no_rate (state_of [eur_row, blank_row])) = []
     \<and> bigDrops (computeMonthlyDrops net_no_rate (state_of [eur_row, blank_row])) = []"
    by blast
  moreover from t2 ok rs have
    "map r_id (calc_results (calculate net_no_rate (state_of [eur_row, usd_row]))) = [1, 2]"
    by simp
  ultimately show ?thesis using f e ok by blast
qed

section \<open>The monthly series\<close>

lemma withMoM_length: "length (withMoM ps) = length ps"
  by (simp add: withMoM_def)

lemma withMoM_month: "map month (withMoM ps) = map month ps"
  by (rule nth_equalityI) (simp_all add: withMoM_def Let_def)

lemma withMoM_value: "map valueUSD (withMoM ps) = map valueUSD ps"
  by (rule nth_equalityI) (simp_all add: withMoM_def Let_def)

lemma withMoM_first: "ps \<noteq> [] \<Longrightarrow> mom (withMoM ps ! 0) = None"
  by (simp add: withMoM_def Let_def)

lemma withMoM_later:
  "0 < i \<Longrightarrow> i < length ps \<Longrightarrow>
   mom (withMoM ps ! i) =
     (if jgt (valueUSD (ps ! (i - 1))) (Fin 0)
      then Some (jsub (jdiv (valueUSD (ps ! i)) (valueUSD (ps ! (i - 1)))) (Fin 1))
      else None)"
  by (simp add: withMoM_def Let_def)

lemma withMoM_nth_value: "i < length ps \<Longrightarrow> valueUSD (withMoM ps ! i) = valueUSD (ps ! i)"
  by (auto simp: withMoM_def Let_def)

lemma not_jgt_zero: "x \<noteq> NaN \<Longrightarrow> (\<not> jgt x (Fin 0)) = jle x (Fin 0)"
  by (cases x) (auto simp: jgt_def)

lemma jgt_not_jle: "jgt x (Fin 0) \<Longrightarrow> \<not> jle x (Fin 0)"
  by (cases x) (auto simp: jgt_def)

lemma jgt_not_NaN: "jgt x y \<Longrightarrow> x \<noteq> NaN"
  by (cases x; cases y) (auto simp: jgt_def)

lemma portfolioSeries_positive: "p \<in> set (portfolioSeries perSymbol) \<Longrightarrow> jgt (valueUSD p) (Fin 0)"
  by (simp add: portfolioSeries_def)

lemma portfolioSeries_value:
  "p \<in> set (portfolioSeries perSymbol) \<Longrightarrow> valueUSD p = monthValue perSymbol (month p)"
  by (auto simp: portfolioSeries_def)

lemma withMoM_positive:
  assumes "p \<in> set (withMoM (portfolioSeries perSymbol))"
  shows "jgt (valueUSD p) (Fin 0)"
proof -
  have "valueUSD p \<in> set (map valueUSD (withMoM (portfolioSeries perSymbol)))"
    using assms by simp
  then have "valueUSD p \<in> valueUSD ` set (portfolioSeries perSymbol)"
    by (simp add: withMoM_value)
  then show ?thesis using portfolioSeries_positive by auto
qed

text \<open>
  C4. In the series aggregated from the holdings no month with a sum at most zero
  remains, and every remaining value is positive. The change of the first point is
  undefined; the change of every later point \<open>i\<close> is \<open>value[i]/value[i-1] - 1\<close>, and
  it is undefined exactly when \<open>value[i-1] \<le> 0\<close>, which does not occur there. On any
  series without \<open>NaN\<close>, the change of a later point is undefined exactly when the value
  before it is at most zero, and is that quotient less one otherwise.
\<close>

theorem monthly_changes:
  "(\<forall>m. jle (monthValue perSymbol m) (Fin 0) \<longrightarrow>
        m \<notin> month ` set (withMoM (portfolioSeries perSymbol)))
   \<and> (\<forall>p \<in> set (withMoM (portfolioSeries perSymbol)). jgt (valueUSD p) (Fin 0))
   \<and> map month (withMoM (portfolioSeries perSymbol)) = map month (portfolioSeries perSymbol)
   \<and> map valueUSD (withMoM (portfolioSeries perSymbol)) = map valueUSD (portfolioSeries perSymbol)
   \<and> (withMoM (portfolioSeries perSymbol) \<noteq> [] \<longrightarrow>
        mom (withMoM (portfolioSeries perSymbol) ! 0) = None)
   \<and> (\<forall>i. 0 < i \<and> i < length (withMoM (portfolioSeries perSymbol)) \<longrightarrow>
        mom (withMoM (portfolioSeries perSymbol) ! i)
          = Some (jsub (jdiv (valueUSD (withMoM (portfolioSeries perSymbol) ! i))
                             (valueUSD (withMoM (portfolioSeries perSymbol) ! (i - 1)))) (Fin 1))
        \<and> (mom (withMoM (portfolioSeries perSymbol) ! i) = None
             \<longleftrightarrow> jle (valueUSD (withMoM (portfolioSeries perSymbol) ! (i - 1))) (Fin 0)))
   \<and> ((\<forall>p \<in> set qs. valueUSD p \<noteq> NaN) \<longrightarrow>
        (\<forall>i. 0 < i \<and> i < length qs \<longrightarrow>
           (mom (withMoM qs ! i) = None \<longleftrightarrow> jle (valueUSD (qs ! (i - 1))) (Fin 0))
           \<and> (\<not> jle (valueUSD (qs ! (i - 1))) (Fin 0) \<longrightarrow>
                mom (withMoM qs ! i)
                  = Some (jsub (jdiv (valueUSD (qs ! i)) (valueUSD (qs ! (i - 1)))) (Fin 1)))))"
proof -
  let ?ps = "portfolioSeries perSymbol"
  let ?ms = "withMoM ?ps"
  have a: "m \<notin> month ` set ?ms" if le: "jle (monthValue perSymbol m) (Fin 0)" for m
  proof
    assume "m \<in> month ` set ?ms"
    then have "m \<in> set (map month ?ms)" by simp
    then have "m \<in> month ` set ?ps" by (simp add: withMoM_month)
    then obtain p where p: "p \<in> set ?ps" "month p = m" by auto
    have "jgt (monthValue perSymbol m) (Fin 0)"
      using portfolioSeries_positive [OF p(1)] portfolioSeries_value [OF p(1)] p(2) by simp
    then show False using le jgt_not_jle by blast
  qed
  have b: "\<forall>p \<in> set ?ms. jgt (valueUSD p) (Fin 0)"
    using withMoM_positive by blast
  have c: "?ms \<noteq> [] \<longrightarrow> mom (?ms ! 0) = None"
    using withMoM_first [of ?ps] by (cases "?ps = []") (simp_all add: withMoM_def)
  have d: "mom (?ms ! i) = Some (jsub (jdiv (valueUSD (?ms ! i)) (valueUSD (?ms ! (i - 1)))) (Fin 1))
        \<and> (mom (?ms ! i) = None \<longleftrightarrow> jle (valueUSD (?ms ! (i - 1))) (Fin 0))"
    if i: "0 < i" "i < length ?ms" for i
  proof -
    have il: "i < length ?ps" "i - 1 < length ?ps" using i by (simp_all add: withMoM_length)
    have "?ps ! (i - 1) \<in> set ?ps" using il(2) by simp
    then have pos: "jgt (valueUSD (?ps ! (i - 1))) (Fin 0)" by (rule portfolioSeries_positive)
    have v: "valueUSD (?ms ! i) = valueUSD (?ps ! i)" "valueUSD (?ms ! (i - 1)) = valueUSD (?ps ! (i - 1))"
      using il by (simp_all add: withMoM_nth_value)
    show ?thesis
      using withMoM_later [OF i(1) il(1)] pos v jgt_not_jle [OF pos] by simp
  qed
  have e: "(mom (withMoM qs ! i) = None \<longleftrightarrow> jle (valueUSD (qs ! (i - 1))) (Fin 0))
           \<and> (\<not> jle (valueUSD (qs ! (i - 1))) (Fin 0) \<longrightarrow>
                mom (withMoM qs ! i)
                  = Some (jsub (jdiv (valueUSD (qs ! i)) (valueUSD (qs ! (i - 1)))) (Fin 1)))"
    if nn: "\<forall>p \<in> set qs. valueUSD p \<noteq> NaN" and i: "0 < i" "i < length qs" for i
  proof -
    have "qs ! (i - 1) \<in> set qs" using i by simp
    then have "valueUSD (qs ! (i - 1)) \<noteq> NaN" using nn by blast
    then have "(\<not> jgt (valueUSD (qs ! (i - 1))) (Fin 0)) = jle (valueUSD (qs ! (i - 1))) (Fin 0)"
      by (rule not_jgt_zero)
    then show ?thesis using withMoM_later [OF i] by auto
  qed
  show ?thesis
    using a b c d e withMoM_month [of ?ps] withMoM_value [of ?ps] by blast
qed

lemma one_holding_series:
  "withMoM (portfolioSeries one_holding) =
     [\<lparr>month = ''2020-01'', valueUSD = Fin 100, mom = None\<rparr>,
      \<lparr>month = ''2020-02'', valueUSD = Fin 90, mom = Some (Fin (- 1 / 10))\<rparr>,
      \<lparr>month = ''2020-04'', valueUSD = Fin 95, mom = Some (Fin (1 / 18))\<rparr>,
      \<lparr>month = ''2020-05'', valueUSD = Fin 70, mom = Some (Fin (- 5 / 19))\<rparr>]"
  by (simp add: portfolioSeries_def monthsSorted_def monthValue_def set_add_def one_holding_def
      withMoM_def jgt_def jsub_def upt_rec)

theorem monthly_changes_witness:
  "jle (monthValue one_holding ''2020-03'') (Fin 0)
   \<and> ''2020-03'' \<notin> month ` set (withMoM (portfolioSeries one_holding))
   \<and> map month (withMoM (portfolioSeries one_holding))
       = [''2020-01'', ''2020-02'', ''2020-04'', ''2020-05'']
   \<and> map valueUSD (withMoM (portfolioSeries one_holding)) = [Fin 100, Fin 90, Fin 95, Fin 70]
   \<and> mom (withMoM (portfolioSeries one_holding) ! 0) = None
   \<and> mom (withMoM (portfolioSeries one_holding) ! 3) = Some (jsub (jdiv (Fin 70) (Fin 95)) (Fin 1))
   \<and> mom (withMoM [\<lparr>month = ''2020-01'', valueUSD = Fin 0\<rparr>,
                    \<lparr>month = ''2020-02'', valueUSD = Fin 5\<rparr>] ! 1) = None"
proof -
  have z: "jle (monthValue one_holding ''2020-03'') (Fin 0)"
    by (simp add: monthValue_def one_holding_def)
  have l: "(0::nat) < 3 \<and> 3 < length (withMoM (portfolioSeries one_holding))"
    by (simp add: one_holding_series)
  have v: "valueUSD (withMoM (portfolioSeries one_holding) ! 3) = Fin 70"
     "valueUSD (withMoM (portfolioSeries one_holding) ! (3 - 1)) = Fin 95"
     "withMoM (portfolioSeries one_holding) \<noteq> []"
    by (simp_all add: one_holding_series)
  have q: "\<forall>p \<in> set [\<lparr>month = ''2020-01'', valueUSD = Fin 0\<rparr>,
                    \<lparr>month = ''2020-02'', valueUSD = Fin 5\<rparr>]. valueUSD p \<noteq> NaN"
    by simp
  note t = monthly_changes [of one_holding
      "[\<lparr>month = ''2020-01'', valueUSD = Fin 0\<rparr>, \<lparr>month = ''2020-02'', valueUSD = Fin 5\<rparr>]"]
  from t z have a: "''2020-03'' \<notin> month ` set (withMoM (portfolioSeries one_holding))"
    by blast
  from t v(3) have b: "mom (withMoM (portfolioSeries one_holding) ! 0) = None"
    by blast
  from t l have "mom (withMoM (portfolioSeries one_holding) ! 3)
      = Some (jsub (jdiv (valueUSD (withMoM (portfolioSeries one_holding) ! 3))
                         (valueUSD (withMoM (portfolioSeries one_holding) ! (3 - 1)))) (Fin 1))"
    by blast
  then have c: "mom (withMoM (portfolioSeries one_holding) ! 3)
      = Some (jsub (jdiv (Fin 70) (Fin 95)) (Fin 1))"
    using v by simp
  from t q have "mom (withMoM [\<lparr>month = ''2020-01'', valueUSD = Fin 0\<rparr>,
                    \<lparr>month = ''2020-02'', valueUSD = Fin 5\<rparr>] ! 1) = None
      \<longleftrightarrow> jle (valueUSD ([\<lparr>month = ''2020-01'', valueUSD = Fin 0\<rparr>,
                    \<lparr>month = ''2020-02'', valueUSD = Fin 5\<rparr>] ! (1 - 1))) (Fin 0)"
    by (elim conjE) simp
  then have d: "mom (withMoM [\<lparr>month = ''2020-01'', valueUSD = Fin 0\<rparr>,
                    \<lparr>month = ''2020-02'', valueUSD = Fin 5\<rparr>] ! 1) = None"
    by simp
  have m: "map month (withMoM (portfolioSeries one_holding))
       = [''2020-01'', ''2020-02'', ''2020-04'', ''2020-05'']"
    "map valueUSD (withMoM (portfolioSeries one_holding)) = [Fin 100, Fin 90, Fin 95, Fin 70]"
    by (simp_all add: one_holding_series)
  show ?thesis using z a b c d m by blast
qed

section \<open>The drawdown scan\<close>

lemma jlt_irrefl: "\<not> jlt a a"
  by (cases a) auto

lemma jlt_jle_trans: "jlt a b \<Longrightarrow> jle b c \<Longrightarrow> jlt a c"
  by (cases a; cases b; cases c) auto

lemma jle_jlt_trans: "jle a b \<Longrightarrow> jlt b c \<Longrightarrow> jlt a c"
  by (cases a; cases b; cases c) auto

lemma jle_refl: "a \<noteq> NaN \<Longrightarrow> jle a a"
  by (cases a) auto

lemma jle_not_NaN: "jle a b \<Longrightarrow> a \<noteq> NaN \<and> b \<noteq> NaN"
  by (cases a; cases b) auto

lemma jlt_not_NaN: "jlt a b \<Longrightarrow> a \<noteq> NaN \<and> b \<noteq> NaN"
  by (cases a; cases b) auto

lemma not_jlt_jle: "a \<noteq> NaN \<Longrightarrow> b \<noteq> NaN \<Longrightarrow> (\<not> jlt a b) = jle b a"
  by (cases a; cases b) auto

lemma jle_cases: "jle a b \<Longrightarrow> jlt a b \<or> a = b"
  by (cases a; cases b) auto

lemma scan_step_peak:
  "peak (scan_step s x) = (if jgt (valueUSD x) (peak s) then valueUSD x else peak s)"
  by (simp add: scan_step_def Let_def)

lemma scan_step_update:
  assumes "jgt (peak (scan_step s x)) (Fin 0)"
    and "jlt (jsub (jdiv (valueUSD x) (peak (scan_step s x))) (Fin 1)) (worstDD s)"
  shows "worstDD (scan_step s x) = jsub (jdiv (valueUSD x) (peak (scan_step s x))) (Fin 1)
       \<and> troughValue (scan_step s x) = valueUSD x \<and> sc_troughMonth (scan_step s x) = month x"
  using assms by (simp add: scan_step_def Let_def split: if_splits)

lemma scan_step_keep:
  assumes "\<not> (jgt (peak (scan_step s x)) (Fin 0)
      \<and> jlt (jsub (jdiv (valueUSD x) (peak (scan_step s x))) (Fin 1)) (worstDD s))"
  shows "worstDD (scan_step s x) = worstDD s
       \<and> troughValue (scan_step s x) = troughValue s
       \<and> sc_troughMonth (scan_step s x) = sc_troughMonth s"
  using assms by (simp add: scan_step_def Let_def split: if_splits)

lemma scan_step_worst_le:
  assumes "jle (worstDD s) (Fin 0)"
  shows "jle (worstDD (scan_step s x)) (worstDD s)"
proof (cases "jgt (peak (scan_step s x)) (Fin 0)
      \<and> jlt (jsub (jdiv (valueUSD x) (peak (scan_step s x))) (Fin 1)) (worstDD s)")
  case True
  then show ?thesis using scan_step_update [of s x] by (simp add: jlt_imp_jle)
next
  case False
  have "worstDD s \<noteq> NaN" using assms jle_not_NaN by blast
  then show ?thesis using scan_step_keep [OF False] by (simp add: jle_refl)
qed

lemma scan_worst_nonpos: "jle (worstDD (foldl scan_step (scan_init p0) xs)) (Fin 0)"
proof (induction xs rule: rev_induct)
  case Nil
  show ?case by (simp add: scan_init_def)
next
  case (snoc x xs)
  show ?case
    using scan_step_worst_le [OF snoc.IH, of x] snoc.IH by (auto intro: jle_trans)
qed

lemma scan_upto_snoc: "i < length xs \<Longrightarrow> scan_upto p0 (xs @ [x]) i = scan_upto p0 xs i"
  by (simp add: scan_upto_def)

lemma scan_upto_last:
  "scan_upto p0 (xs @ [x]) (length xs) = scan_step (foldl scan_step (scan_init p0) xs) x"
  by (simp add: scan_upto_def)

lemma peak_at_snoc: "i < length xs \<Longrightarrow> peak_at p0 (xs @ [x]) i = peak_at p0 xs i"
  by (simp add: peak_at_def scan_upto_snoc)

lemma decline_at_snoc: "i < length xs \<Longrightarrow> decline_at p0 (xs @ [x]) i = decline_at p0 xs i"
  by (simp add: decline_at_def peak_at_snoc nth_append)

lemma peak_at_last:
  "peak_at p0 (xs @ [x]) (length xs) = peak (scan_step (foldl scan_step (scan_init p0) xs) x)"
  by (simp add: peak_at_def scan_upto_last)

lemma decline_at_last:
  "decline_at p0 (xs @ [x]) (length xs)
     = jsub (jdiv (valueUSD x) (peak (scan_step (foldl scan_step (scan_init p0) xs) x))) (Fin 1)"
  by (simp add: decline_at_def peak_at_last)

text \<open>No point has declined from its running peak by more than the worst drawdown.\<close>

lemma scan_worst_least:
  "i < length xs \<Longrightarrow> jgt (peak_at p0 xs i) (Fin 0) \<Longrightarrow>
   \<not> jlt (decline_at p0 xs i) (worstDD (foldl scan_step (scan_init p0) xs))"
proof (induction xs arbitrary: i rule: rev_induct)
  case Nil
  then show ?case by simp
next
  case (snoc x xs)
  let ?s = "foldl scan_step (scan_init p0) xs"
  let ?s' = "scan_step ?s x"
  have np: "jle (worstDD ?s) (Fin 0)" by (rule scan_worst_nonpos)
  have le: "jle (worstDD ?s') (worstDD ?s)" using np by (rule scan_step_worst_le)
  show ?case
  proof (cases "i < length xs")
    case True
    have pk: "jgt (peak_at p0 xs i) (Fin 0)" using snoc.prems(2) True by (simp add: peak_at_snoc)
    have "\<not> jlt (decline_at p0 xs i) (worstDD ?s)" using snoc.IH [OF True pk] .
    then have "\<not> jlt (decline_at p0 xs i) (worstDD ?s')" using le jlt_jle_trans by blast
    then show ?thesis using True by (simp add: decline_at_snoc)
  next
    case False
    then have i: "i = length xs" using snoc.prems(1) by simp
    have pk: "jgt (peak ?s') (Fin 0)" using snoc.prems(2) i by (simp add: peak_at_last)
    let ?dd = "jsub (jdiv (valueUSD x) (peak ?s')) (Fin 1)"
    have "\<not> jlt ?dd (worstDD ?s')"
    proof (cases "jlt ?dd (worstDD ?s)")
      case True
      then have "worstDD ?s' = ?dd" using scan_step_update [OF pk] by simp
      then show ?thesis by (simp add: jlt_irrefl)
    next
      case False
      then have "worstDD ?s' = worstDD ?s" using scan_step_keep [of ?s x] by simp
      then show ?thesis using False by simp
    qed
    then show ?thesis using i by (simp add: decline_at_last)
  qed
qed

text \<open>
  A negative worst drawdown is the decline of the trough, and the trough is the first
  point with that decline: every earlier point declined strictly less.
\<close>

lemma scan_trough_attains:
  "jlt (worstDD (foldl scan_step (scan_init p0) xs)) (Fin 0) \<Longrightarrow>
   \<exists>i < length xs. jgt (peak_at p0 xs i) (Fin 0)
      \<and> worstDD (foldl scan_step (scan_init p0) xs) = decline_at p0 xs i
      \<and> troughValue (foldl scan_step (scan_init p0) xs) = valueUSD (xs ! i)
      \<and> sc_troughMonth (foldl scan_step (scan_init p0) xs) = month (xs ! i)
      \<and> (\<forall>j < i. jgt (peak_at p0 xs j) (Fin 0) \<longrightarrow>
            \<not> jle (decline_at p0 xs j) (decline_at p0 xs i))"
proof (induction xs rule: rev_induct)
  case Nil
  then show ?case by (simp add: scan_init_def)
next
  case (snoc x xs)
  let ?s = "foldl scan_step (scan_init p0) xs"
  let ?s' = "scan_step ?s x"
  let ?dd = "jsub (jdiv (valueUSD x) (peak ?s')) (Fin 1)"
  let ?n = "length xs"
  show ?case
  proof (cases "jgt (peak ?s') (Fin 0) \<and> jlt ?dd (worstDD ?s)")
    case True
    have u: "worstDD ?s' = ?dd" "troughValue ?s' = valueUSD x" "sc_troughMonth ?s' = month x"
      using scan_step_update [of ?s x] True by simp_all
    have first: "\<not> jle (decline_at p0 (xs @ [x]) j) (decline_at p0 (xs @ [x]) ?n)"
      if j: "j < ?n" and pj: "jgt (peak_at p0 (xs @ [x]) j) (Fin 0)" for j
    proof
      assume "jle (decline_at p0 (xs @ [x]) j) (decline_at p0 (xs @ [x]) ?n)"
      then have "jle (decline_at p0 xs j) ?dd"
        using j by (simp add: decline_at_snoc decline_at_last)
      then have "jlt (decline_at p0 xs j) (worstDD ?s)" using True jle_jlt_trans by blast
      moreover have "jgt (peak_at p0 xs j) (Fin 0)" using pj j by (simp add: peak_at_snoc)
      ultimately show False using scan_worst_least [OF j] by blast
    qed
    have "?n < length (xs @ [x])" by simp
    moreover have "jgt (peak_at p0 (xs @ [x]) ?n) (Fin 0)" using True by (simp add: peak_at_last)
    moreover have "worstDD (foldl scan_step (scan_init p0) (xs @ [x])) = decline_at p0 (xs @ [x]) ?n"
      using u by (simp add: decline_at_last)
    moreover have "troughValue (foldl scan_step (scan_init p0) (xs @ [x])) = valueUSD ((xs @ [x]) ! ?n)"
      using u by simp
    moreover have "sc_troughMonth (foldl scan_step (scan_init p0) (xs @ [x])) = month ((xs @ [x]) ! ?n)"
      using u by simp
    ultimately show ?thesis using first by blast
  next
    case False
    have k: "worstDD ?s' = worstDD ?s" "troughValue ?s' = troughValue ?s"
        "sc_troughMonth ?s' = sc_troughMonth ?s"
      using scan_step_keep [OF False] by simp_all
    have "jlt (worstDD ?s) (Fin 0)" using snoc.prems k by simp
    from snoc.IH [OF this] obtain i where i: "i < ?n" "jgt (peak_at p0 xs i) (Fin 0)"
      "worstDD ?s = decline_at p0 xs i" "troughValue ?s = valueUSD (xs ! i)"
      "sc_troughMonth ?s = month (xs ! i)"
      "\<forall>j < i. jgt (peak_at p0 xs j) (Fin 0) \<longrightarrow> \<not> jle (decline_at p0 xs j) (decline_at p0 xs i)"
      by blast
    have "i < length (xs @ [x])" using i(1) by simp
    moreover have "jgt (peak_at p0 (xs @ [x]) i) (Fin 0)" using i by (simp add: peak_at_snoc)
    moreover have "worstDD (foldl scan_step (scan_init p0) (xs @ [x])) = decline_at p0 (xs @ [x]) i"
      using i k by (simp add: decline_at_snoc)
    moreover have "troughValue (foldl scan_step (scan_init p0) (xs @ [x])) = valueUSD ((xs @ [x]) ! i)"
      using i k by (simp add: nth_append)
    moreover have "sc_troughMonth (foldl scan_step (scan_init p0) (xs @ [x])) = month ((xs @ [x]) ! i)"
      using i k by (simp add: nth_append)
    moreover have "\<forall>j < i. jgt (peak_at p0 (xs @ [x]) j) (Fin 0) \<longrightarrow>
            \<not> jle (decline_at p0 (xs @ [x]) j) (decline_at p0 (xs @ [x]) i)"
      using i by (simp add: peak_at_snoc decline_at_snoc)
    ultimately show ?thesis by blast
  qed
qed

text \<open>Without a negative drawdown the trough stays at the first point.\<close>

lemma scan_no_drawdown:
  "\<not> jlt (worstDD (foldl scan_step (scan_init p0) xs)) (Fin 0) \<Longrightarrow>
   worstDD (foldl scan_step (scan_init p0) xs) = Fin 0
   \<and> troughValue (foldl scan_step (scan_init p0) xs) = valueUSD p0
   \<and> sc_troughMonth (foldl scan_step (scan_init p0) xs) = month p0"
proof (induction xs rule: rev_induct)
  case Nil
  show ?case by (simp add: scan_init_def)
next
  case (snoc x xs)
  let ?s = "foldl scan_step (scan_init p0) xs"
  let ?s' = "scan_step ?s x"
  have np: "jle (worstDD ?s) (Fin 0)" by (rule scan_worst_nonpos)
  have le: "jle (worstDD ?s') (worstDD ?s)" using np by (rule scan_step_worst_le)
  have n0: "\<not> jlt (worstDD ?s') (Fin 0)" using snoc.prems by simp
  have "\<not> jlt (worstDD ?s) (Fin 0)"
  proof
    assume "jlt (worstDD ?s) (Fin 0)"
    then have "jlt (worstDD ?s') (Fin 0)" using le jle_jlt_trans by blast
    then show False using n0 by simp
  qed
  then have ih: "worstDD ?s = Fin 0" "troughValue ?s = valueUSD p0" "sc_troughMonth ?s = month p0"
    using snoc.IH by simp_all
  have "\<not> (jgt (peak ?s') (Fin 0)
      \<and> jlt (jsub (jdiv (valueUSD x) (peak ?s')) (Fin 1)) (worstDD ?s))"
  proof
    assume a: "jgt (peak ?s') (Fin 0)
      \<and> jlt (jsub (jdiv (valueUSD x) (peak ?s')) (Fin 1)) (worstDD ?s)"
    then have "worstDD ?s' = jsub (jdiv (valueUSD x) (peak ?s')) (Fin 1)"
      using scan_step_update [of ?s x] by simp
    then have "jlt (worstDD ?s') (Fin 0)" using a ih(1) by simp
    then show False using n0 by simp
  qed
  from scan_step_keep [OF this] show ?case using ih by simp
qed

text \<open>On values without \<open>NaN\<close> the running peak is the greatest value read so far.\<close>

lemma scan_peak_max:
  assumes "peak s \<noteq> NaN" and "\<forall>x \<in> set xs. valueUSD x \<noteq> NaN"
  shows "jle (peak s) (peak (foldl scan_step s xs))
       \<and> (\<forall>x \<in> set xs. jle (valueUSD x) (peak (foldl scan_step s xs)))
       \<and> (peak (foldl scan_step s xs) = peak s
            \<or> peak (foldl scan_step s xs) \<in> valueUSD ` set xs)"
  using assms
proof (induction xs arbitrary: s)
  case Nil
  then show ?case by (simp add: jle_refl)
next
  case (Cons x xs)
  let ?s1 = "scan_step s x"
  have vx: "valueUSD x \<noteq> NaN" using Cons.prems(2) by simp
  have p1: "peak ?s1 \<noteq> NaN" using vx Cons.prems(1) by (simp add: scan_step_peak)
  have a: "jle (peak s) (peak ?s1)"
    using Cons.prems(1) by (auto simp: scan_step_peak jgt_def jlt_imp_jle jle_refl)
  have b: "jle (valueUSD x) (peak ?s1)"
    using Cons.prems(1) vx by (auto simp: scan_step_peak jgt_def jle_refl not_jlt_jle)
  have c: "peak ?s1 = peak s \<or> peak ?s1 = valueUSD x" by (simp add: scan_step_peak)
  have ih: "jle (peak ?s1) (peak (foldl scan_step ?s1 xs))
       \<and> (\<forall>y \<in> set xs. jle (valueUSD y) (peak (foldl scan_step ?s1 xs)))
       \<and> (peak (foldl scan_step ?s1 xs) = peak ?s1
            \<or> peak (foldl scan_step ?s1 xs) \<in> valueUSD ` set xs)"
    using Cons.IH [OF p1] Cons.prems(2) by simp
  have "jle (peak s) (peak (foldl scan_step ?s1 xs))" using a ih jle_trans by blast
  moreover have "jle (valueUSD x) (peak (foldl scan_step ?s1 xs))" using b ih jle_trans by blast
  ultimately show ?case using ih c by auto
qed

lemma peak_at_max:
  assumes "\<forall>x \<in> set (p0 # rest). valueUSD x \<noteq> NaN" and "i < length (p0 # rest)"
  shows "(\<forall>j \<le> i. jle (valueUSD ((p0 # rest) ! j)) (peak_at p0 (p0 # rest) i))
       \<and> (\<exists>j \<le> i. peak_at p0 (p0 # rest) i = valueUSD ((p0 # rest) ! j))"
proof -
  let ?xs = "p0 # rest"
  let ?t = "take (Suc i) ?xs"
  have nn: "\<forall>x \<in> set ?t. valueUSD x \<noteq> NaN" using assms(1) by (meson in_set_takeD)
  have p: "peak (scan_init p0) \<noteq> NaN" using assms(1) by (simp add: scan_init_def)
  note m = scan_peak_max [OF p nn]
  have mem: "?xs ! j \<in> set ?t" if "j \<le> i" for j
  proof -
    have jl: "j < Suc i" using that by simp
    have e: "?t ! j = ?xs ! j" using jl by (rule nth_take)
    have "j < length ?t" using that assms(2) by (simp del: take_Suc_Cons)
    then have "?t ! j \<in> set ?t" by (rule nth_mem)
    then show ?thesis using e by (simp del: take_Suc_Cons)
  qed
  have pe: "peak_at p0 ?xs i = peak (foldl scan_step (scan_init p0) ?t)"
    by (simp only: peak_at_def scan_upto_def)
  have a: "\<forall>j \<le> i. jle (valueUSD (?xs ! j)) (peak_at p0 ?xs i)"
    using m mem unfolding pe by blast
  have p0t: "p0 \<in> set ?t" by simp
  have "peak_at p0 ?xs i \<in> valueUSD ` set ?t"
  proof (cases "peak (foldl scan_step (scan_init p0) ?t) = peak (scan_init p0)")
    case True
    then have "peak_at p0 ?xs i = valueUSD p0" unfolding pe by (simp add: scan_init_def)
    then show ?thesis using p0t by (metis imageI)
  next
    case False
    then show ?thesis using m unfolding pe by blast
  qed
  then obtain y where y: "y \<in> set ?t" "peak_at p0 ?xs i = valueUSD y" by auto
  then obtain j where j: "j < length ?t" "?t ! j = y" by (metis in_set_conv_nth)
  have jl: "j < Suc i" using j(1) by (simp del: take_Suc_Cons)
  have "?t ! j = ?xs ! j" using jl by (rule nth_take)
  then have "j \<le> i" "?xs ! j = y" using jl j(2) by simp_all
  then show ?thesis using a y by blast
qed

section \<open>The events\<close>

lemma event_perf_nonempty:
  assumes "in_range ev ms = p0 # rest"
  shows "maxDrawdown (event_perf ms ev) = Some (worstDD (drawdown_scan p0 (p0 # rest)))
       \<and> troughMonth (event_perf ms ev) = Some (sc_troughMonth (drawdown_scan p0 (p0 # rest)))
       \<and> recoveryMonth (event_perf ms ev)
           = recovery_search ms (sc_troughMonth (drawdown_scan p0 (p0 # rest)))
               (peak (drawdown_scan p0 (p0 # rest)))"
  using assms by (simp add: event_perf_def Let_def)

lemmas event_simps =
  event_perf_def in_range_def drawdown_scan_def scan_init_def scan_step_def recovery_search_def
  dotcom_def MARKET_EVENTS_def withMoM_def jgt_def jge_def jsub_def Let_def upt_rec

lemma scenarioC_perf:
  "maxDrawdown (event_perf scenarioC dotcom) = Some (jsub (jdiv (Fin 80) (Fin 150)) (Fin 1))
   \<and> troughMonth (event_perf scenarioC dotcom) = Some ''2000-06''
   \<and> recoveryMonth (event_perf scenarioC dotcom) = Some ''2000-07''"
  by (simp add: scenarioC_def event_simps)

lemma scenarioC_points:
  "in_range dotcom scenarioC = scenarioC
   \<and> map valueUSD scenarioC = [Fin 100, Fin 150, Fin 120, Fin 80, Fin 200]
   \<and> map month scenarioC = [''2000-03'', ''2000-04'', ''2000-05'', ''2000-06'', ''2000-07'']"
  by (simp add: scenarioC_def event_simps)

lemma rise_then_dip_perf:
  "in_range dotcom rise_then_dip = rise_then_dip
   \<and> map valueUSD rise_then_dip = [Fin 50, Fin 100, Fin 60]
   \<and> troughValue (drawdown_scan (hd rise_then_dip) rise_then_dip) = Fin 60
   \<and> troughMonth (event_perf rise_then_dip dotcom) = Some ''2000-05''"
  by (simp add: rise_then_dip_def event_simps)

text \<open>
  C7. For an event whose in-range series is not empty, the reported maximum drawdown
  is at most zero and no point of the range has declined more from its running peak;
  a negative maximum drawdown is the decline of the trough, which is the first point
  with that decline, and without any decline the trough is the first point. On values
  without \<open>NaN\<close> the running peak at a point is the greatest value up to it. The
  trough need not be the lowest value: in 50, 100, 60 it is 60. For the values 100, 150,
  120, 80, 200 inside one window the maximum drawdown is \<open>80/150 - 1\<close>, the trough is
  the month of 80 and the recovery is the month of 200.
\<close>

theorem drawdown_trough:
  assumes "in_range ev ms = p0 # rest"
  shows "maxDrawdown (event_perf ms ev) = Some (worstDD (drawdown_scan p0 (p0 # rest)))
       \<and> troughMonth (event_perf ms ev) = Some (sc_troughMonth (drawdown_scan p0 (p0 # rest)))
       \<and> jle (worstDD (drawdown_scan p0 (p0 # rest))) (Fin 0)
       \<and> (\<forall>i < length (p0 # rest). jgt (peak_at p0 (p0 # rest) i) (Fin 0) \<longrightarrow>
             \<not> jlt (decline_at p0 (p0 # rest) i) (worstDD (drawdown_scan p0 (p0 # rest))))
       \<and> (jlt (worstDD (drawdown_scan p0 (p0 # rest))) (Fin 0) \<longrightarrow>
             (\<exists>i < length (p0 # rest). jgt (peak_at p0 (p0 # rest) i) (Fin 0)
                \<and> worstDD (drawdown_scan p0 (p0 # rest)) = decline_at p0 (p0 # rest) i
                \<and> troughValue (drawdown_scan p0 (p0 # rest)) = valueUSD ((p0 # rest) ! i)
                \<and> sc_troughMonth (drawdown_scan p0 (p0 # rest)) = month ((p0 # rest) ! i)
                \<and> (\<forall>j < i. jgt (peak_at p0 (p0 # rest) j) (Fin 0) \<longrightarrow>
                      \<not> jle (decline_at p0 (p0 # rest) j) (decline_at p0 (p0 # rest) i))))
       \<and> (\<not> jlt (worstDD (drawdown_scan p0 (p0 # rest))) (Fin 0) \<longrightarrow>
             worstDD (drawdown_scan p0 (p0 # rest)) = Fin 0
             \<and> troughValue (drawdown_scan p0 (p0 # rest)) = valueUSD p0
             \<and> sc_troughMonth (drawdown_scan p0 (p0 # rest)) = month p0)
       \<and> ((\<forall>x \<in> set (p0 # rest). valueUSD x \<noteq> NaN) \<longrightarrow>
             (\<forall>i < length (p0 # rest).
                (\<forall>j \<le> i. jle (valueUSD ((p0 # rest) ! j)) (peak_at p0 (p0 # rest) i))
                \<and> (\<exists>j \<le> i. peak_at p0 (p0 # rest) i = valueUSD ((p0 # rest) ! j))))
       \<and> map valueUSD rise_then_dip = [Fin 50, Fin 100, Fin 60]
       \<and> troughValue (drawdown_scan (hd rise_then_dip) rise_then_dip) = Fin 60
       \<and> map valueUSD scenarioC = [Fin 100, Fin 150, Fin 120, Fin 80, Fin 200]
       \<and> map month scenarioC = [''2000-03'', ''2000-04'', ''2000-05'', ''2000-06'', ''2000-07'']
       \<and> maxDrawdown (event_perf scenarioC dotcom) = Some (jsub (jdiv (Fin 80) (Fin 150)) (Fin 1))
       \<and> troughMonth (event_perf scenarioC dotcom) = Some ''2000-06''
       \<and> recoveryMonth (event_perf scenarioC dotcom) = Some ''2000-07''"
proof -
  let ?xs = "p0 # rest"
  let ?s = "drawdown_scan p0 ?xs"
  have s: "?s = foldl scan_step (scan_init p0) ?xs" by (simp only: drawdown_scan_def)
  have a: "maxDrawdown (event_perf ms ev) = Some (worstDD ?s)
       \<and> troughMonth (event_perf ms ev) = Some (sc_troughMonth ?s)"
    using event_perf_nonempty [OF assms] by blast
  have b: "jle (worstDD ?s) (Fin 0)" unfolding s by (rule scan_worst_nonpos)
  have c: "\<forall>i < length ?xs. jgt (peak_at p0 ?xs i) (Fin 0) \<longrightarrow>
             \<not> jlt (decline_at p0 ?xs i) (worstDD ?s)"
    unfolding s using scan_worst_least [of _ ?xs p0] by blast
  have d: "jlt (worstDD ?s) (Fin 0) \<longrightarrow>
             (\<exists>i < length ?xs. jgt (peak_at p0 ?xs i) (Fin 0)
                \<and> worstDD ?s = decline_at p0 ?xs i
                \<and> troughValue ?s = valueUSD (?xs ! i)
                \<and> sc_troughMonth ?s = month (?xs ! i)
                \<and> (\<forall>j < i. jgt (peak_at p0 ?xs j) (Fin 0) \<longrightarrow>
                      \<not> jle (decline_at p0 ?xs j) (decline_at p0 ?xs i)))"
    unfolding s using scan_trough_attains [of p0 ?xs] by blast
  have e: "\<not> jlt (worstDD ?s) (Fin 0) \<longrightarrow>
             worstDD ?s = Fin 0 \<and> troughValue ?s = valueUSD p0 \<and> sc_troughMonth ?s = month p0"
    unfolding s using scan_no_drawdown [of p0 ?xs] by blast
  have f: "(\<forall>x \<in> set ?xs. valueUSD x \<noteq> NaN) \<longrightarrow>
             (\<forall>i < length ?xs.
                (\<forall>j \<le> i. jle (valueUSD (?xs ! j)) (peak_at p0 ?xs i))
                \<and> (\<exists>j \<le> i. peak_at p0 ?xs i = valueUSD (?xs ! j)))"
    using peak_at_max [of p0 rest] by blast
  show ?thesis
    using a b c d e f scenarioC_perf scenarioC_points rise_then_dip_perf by blast
qed

theorem drawdown_trough_witness:
  "in_range dotcom scenarioC = hd scenarioC # tl scenarioC
   \<and> maxDrawdown (event_perf scenarioC dotcom)
       = Some (worstDD (drawdown_scan (hd scenarioC) (hd scenarioC # tl scenarioC)))
   \<and> jle (worstDD (drawdown_scan (hd scenarioC) (hd scenarioC # tl scenarioC))) (Fin 0)
   \<and> jlt (worstDD (drawdown_scan (hd scenarioC) (hd scenarioC # tl scenarioC))) (Fin 0)
   \<and> worstDD (drawdown_scan (hd scenarioC) (hd scenarioC # tl scenarioC)) = Fin (- 7 / 15)
   \<and> (\<exists>i < length (hd scenarioC # tl scenarioC).
          worstDD (drawdown_scan (hd scenarioC) (hd scenarioC # tl scenarioC))
            = decline_at (hd scenarioC) (hd scenarioC # tl scenarioC) i
          \<and> sc_troughMonth (drawdown_scan (hd scenarioC) (hd scenarioC # tl scenarioC))
            = month ((hd scenarioC # tl scenarioC) ! i))
   \<and> jgt (peak_at (hd scenarioC) (hd scenarioC # tl scenarioC) 2) (Fin 0)
   \<and> \<not> jlt (decline_at (hd scenarioC) (hd scenarioC # tl scenarioC) 2)
           (worstDD (drawdown_scan (hd scenarioC) (hd scenarioC # tl scenarioC)))"
proof -
  let ?xs = "hd scenarioC # tl scenarioC"
  let ?s = "drawdown_scan (hd scenarioC) ?xs"
  have h: "in_range dotcom scenarioC = ?xs"
    by (simp add: scenarioC_def event_simps)
  note t = drawdown_trough [OF h]
  have w: "worstDD ?s = Fin (- 7 / 15)"
    by (simp add: scenarioC_def event_simps)
  have n: "jlt (worstDD ?s) (Fin 0)" by (simp add: w)
  have l: "2 < length ?xs" by (simp add: scenarioC_def event_simps)
  have pk: "jgt (peak_at (hd scenarioC) ?xs 2) (Fin 0)"
    by (simp add: peak_at_def scan_upto_def scenarioC_def event_simps numeral_2_eq_2)
  have a: "maxDrawdown (event_perf scenarioC dotcom) = Some (worstDD ?s)"
    using t by (rule conjunct1)
  have b: "jle (worstDD ?s) (Fin 0)"
    using t by blast
  have c: "\<forall>i < length ?xs. jgt (peak_at (hd scenarioC) ?xs i) (Fin 0) \<longrightarrow>
             \<not> jlt (decline_at (hd scenarioC) ?xs i) (worstDD ?s)"
    using t by blast
  have d: "\<not> jlt (decline_at (hd scenarioC) ?xs 2) (worstDD ?s)"
    using c l pk by blast
  have "jlt (worstDD ?s) (Fin 0) \<longrightarrow>
             (\<exists>i < length ?xs. jgt (peak_at (hd scenarioC) ?xs i) (Fin 0)
                \<and> worstDD ?s = decline_at (hd scenarioC) ?xs i
                \<and> troughValue ?s = valueUSD (?xs ! i)
                \<and> sc_troughMonth ?s = month (?xs ! i)
                \<and> (\<forall>j < i. jgt (peak_at (hd scenarioC) ?xs j) (Fin 0) \<longrightarrow>
                      \<not> jle (decline_at (hd scenarioC) ?xs j) (decline_at (hd scenarioC) ?xs i)))"
    using t by blast
  then have e: "\<exists>i < length ?xs. worstDD ?s = decline_at (hd scenarioC) ?xs i
          \<and> sc_troughMonth ?s = month (?xs ! i)"
    using n by blast
  show ?thesis using h a b n w e pk d by blast
qed

section \<open>Annual extremes\<close>

lemma find_snoc:
  "find P (ys @ [x]) = (case find P ys of None \<Rightarrow> (if P x then Some x else None) | Some y \<Rightarrow> Some y)"
  by (induction ys) auto

lemma fits_year_single:
  assumes "valueUSD x \<noteq> NaN"
  shows "fits_year [x]
           \<lparr>year = y, minUSD = valueUSD x, maxUSD = valueUSD x, minMonth = month x,
            maxMonth = month x, minEUR = a, maxEUR = b\<rparr>"
  using assms by (simp add: fits_year_def jle_refl)

lemma fits_year_bounds_not_NaN:
  assumes "fits_year ys e"
  shows "minUSD e \<noteq> NaN \<and> maxUSD e \<noteq> NaN"
proof -
  from assms obtain p q where "find (\<lambda>p. valueUSD p = minUSD e) ys = Some p"
    "find (\<lambda>p. valueUSD p = maxUSD e) ys = Some q"
    by (auto simp: fits_year_def)
  then have "p \<in> set ys" "valueUSD p = minUSD e" "q \<in> set ys" "valueUSD q = maxUSD e"
    by (auto simp: find_Some_iff)
  moreover have "\<forall>p \<in> set ys. jle (minUSD e) (valueUSD p) \<and> jle (valueUSD p) (maxUSD e)"
    using assms by (simp add: fits_year_def list_all_iff)
  ultimately show ?thesis using jle_not_NaN by metis
qed

lemma ye_update_fields:
  "year (ye_update rate x c) = year c
   \<and> minUSD (ye_update rate x c) = (if jlt (valueUSD x) (minUSD c) then valueUSD x else minUSD c)
   \<and> minMonth (ye_update rate x c) = (if jlt (valueUSD x) (minUSD c) then month x else minMonth c)
   \<and> maxUSD (ye_update rate x c) = (if jgt (valueUSD x) (maxUSD c) then valueUSD x else maxUSD c)
   \<and> maxMonth (ye_update rate x c) = (if jgt (valueUSD x) (maxUSD c) then month x else maxMonth c)"
  by (simp add: ye_update_def Let_def)

lemma jlt_neq: "jlt a b \<Longrightarrow> a \<noteq> b"
  using jlt_irrefl by blast

text \<open>Reading one more point of the year keeps the entry fitting.\<close>

lemma fits_year_snoc:
  assumes f: "fits_year ys c" and vx: "valueUSD x \<noteq> NaN"
  shows "fits_year (ys @ [x]) (ye_update rate x c)"
proof -
  let ?c' = "ye_update rate x c"
  note u = ye_update_fields [of rate x c]
  have nn: "minUSD c \<noteq> NaN" "maxUSD c \<noteq> NaN" using fits_year_bounds_not_NaN [OF f] by simp_all
  have bnd: "\<forall>p \<in> set ys. jle (minUSD c) (valueUSD p) \<and> jle (valueUSD p) (maxUSD c)"
    using f by (simp add: fits_year_def list_all_iff)
  have fmin: "map_option month (find (\<lambda>p. valueUSD p = minUSD c) ys) = Some (minMonth c)"
    and fmax: "map_option month (find (\<lambda>p. valueUSD p = maxUSD c) ys) = Some (maxMonth c)"
    using f by (simp_all add: fits_year_def)
  have lo: "\<forall>p \<in> set (ys @ [x]). jle (minUSD ?c') (valueUSD p)"
  proof (cases "jlt (valueUSD x) (minUSD c)")
    case True
    then have "\<forall>p \<in> set ys. jle (valueUSD x) (valueUSD p)"
      using bnd jlt_imp_jle jle_trans by blast
    then show ?thesis using True u vx by (simp add: jle_refl)
  next
    case False
    then have "jle (minUSD c) (valueUSD x)" using not_jlt_jle [OF vx nn(1)] by simp
    then show ?thesis using False u bnd by simp
  qed
  have hi: "\<forall>p \<in> set (ys @ [x]). jle (valueUSD p) (maxUSD ?c')"
  proof (cases "jgt (valueUSD x) (maxUSD c)")
    case True
    then have "jlt (maxUSD c) (valueUSD x)" by (simp add: jgt_def)
    then have "\<forall>p \<in> set ys. jle (valueUSD p) (valueUSD x)"
      using bnd jlt_imp_jle jle_trans by blast
    then show ?thesis using True u vx by (simp add: jle_refl)
  next
    case False
    then have "\<not> jlt (maxUSD c) (valueUSD x)" by (simp add: jgt_def)
    then have "jle (valueUSD x) (maxUSD c)" using not_jlt_jle [OF nn(2) vx] by simp
    then show ?thesis using False u bnd by simp
  qed
  have mn: "map_option month (find (\<lambda>p. valueUSD p = minUSD ?c') (ys @ [x])) = Some (minMonth ?c')"
  proof (cases "jlt (valueUSD x) (minUSD c)")
    case True
    have "\<forall>p \<in> set ys. valueUSD p \<noteq> valueUSD x"
    proof
      fix p assume "p \<in> set ys"
      then have "jle (minUSD c) (valueUSD p)" using bnd by blast
      then have "jlt (valueUSD x) (valueUSD p)" using True jlt_jle_trans by blast
      then show "valueUSD p \<noteq> valueUSD x" using jlt_neq by metis
    qed
    then have "find (\<lambda>p. valueUSD p = valueUSD x) ys = None" by (simp add: find_None_iff)
    then show ?thesis using True u by (simp add: find_snoc)
  next
    case False
    then show ?thesis using u fmin by (auto simp: find_snoc split: option.splits)
  qed
  have mx: "map_option month (find (\<lambda>p. valueUSD p = maxUSD ?c') (ys @ [x])) = Some (maxMonth ?c')"
  proof (cases "jgt (valueUSD x) (maxUSD c)")
    case True
    then have lt: "jlt (maxUSD c) (valueUSD x)" by (simp add: jgt_def)
    have "\<forall>p \<in> set ys. valueUSD p \<noteq> valueUSD x"
    proof
      fix p assume "p \<in> set ys"
      then have "jle (valueUSD p) (maxUSD c)" using bnd by blast
      then have "jlt (valueUSD p) (valueUSD x)" using lt jle_jlt_trans by blast
      then show "valueUSD p \<noteq> valueUSD x" using jlt_neq by metis
    qed
    then have "find (\<lambda>p. valueUSD p = valueUSD x) ys = None" by (simp add: find_None_iff)
    then show ?thesis using True u by (simp add: find_snoc)
  next
    case False
    then show ?thesis using u fmax by (auto simp: find_snoc split: option.splits)
  qed
  show ?thesis
    unfolding fits_year_def list_all_iff using lo hi mn mx by blast
qed

lemma year_points_snoc:
  "year_points (xs @ [x]) y =
     (if take 4 (month x) = y then year_points xs y @ [x] else year_points xs y)"
  by (simp add: year_points_def)

lemma year_points_empty: "y \<notin> (\<lambda>p. take 4 (month p)) ` set xs \<Longrightarrow> year_points xs y = []"
  by (auto simp: year_points_def filter_empty_conv)

text \<open>
  The map of the loop after any prefix of the series: its keys are the years read, and
  each entry carries its key and fits the points of that year.
\<close>

lemma ye_fold_inv:
  assumes "\<forall>p \<in> set xs. valueUSD p \<noteq> NaN"
  shows "distinct (map fst (foldl (ye_step rate) [] xs))
       \<and> fst ` set (foldl (ye_step rate) [] xs) = (\<lambda>p. take 4 (month p)) ` set xs
       \<and> (\<forall>y e. map_of (foldl (ye_step rate) [] xs) y = Some e \<longrightarrow>
             year e = y \<and> fits_year (year_points xs y) e)"
  using assms
proof (induction xs rule: rev_induct)
  case Nil
  show ?case by simp
next
  case (snoc x xs)
  let ?m = "foldl (ye_step rate) [] xs"
  let ?yr = "take 4 (month x)"
  have vx: "valueUSD x \<noteq> NaN" using snoc.prems by simp
  have ih: "distinct (map fst ?m)" "fst ` set ?m = (\<lambda>p. take 4 (month p)) ` set xs"
    "\<forall>y e. map_of ?m y = Some e \<longrightarrow> year e = y \<and> fits_year (year_points xs y) e"
    using snoc.IH snoc.prems by simp_all
  show ?case
  proof (cases "map_of ?m ?yr")
    case None
    let ?e0 = "\<lparr>year = ?yr, minUSD = valueUSD x, maxUSD = valueUSD x,
                minMonth = month x, maxMonth = month x,
                minEUR = eur_of rate (valueUSD x) None,
                maxEUR = eur_of rate (valueUSD x) None\<rparr>"
    have st: "foldl (ye_step rate) [] (xs @ [x]) = AList.update ?yr ?e0 ?m"
      using None by (simp add: ye_step_def Let_def)
    have "?yr \<notin> fst ` set ?m" using None by (simp add: map_of_eq_None_iff)
    then have emp: "year_points xs ?yr = []" using ih(2) year_points_empty by simp
    have a: "distinct (map fst (AList.update ?yr ?e0 ?m))" using ih(1) by (rule distinct_update)
    have b: "fst ` set (AList.update ?yr ?e0 ?m) = (\<lambda>p. take 4 (month p)) ` set (xs @ [x])"
      using ih(2) by (simp add: dom_update)
    have c: "year e = y \<and> fits_year (year_points (xs @ [x]) y) e"
      if "map_of (AList.update ?yr ?e0 ?m) y = Some e" for y e
    proof (cases "y = ?yr")
      case True
      then have "e = ?e0" using that by (simp add: update_conv')
      then show ?thesis using True emp fits_year_single [OF vx] by (simp add: year_points_snoc)
    next
      case False
      then have "map_of ?m y = Some e" using that by (simp add: update_conv')
      then show ?thesis using ih(3) False by (auto simp: year_points_snoc)
    qed
    show ?thesis unfolding st using a b c by blast
  next
    case (Some cur)
    have st: "foldl (ye_step rate) [] (xs @ [x]) = AList.update ?yr (ye_update rate x cur) ?m"
      using Some by (simp add: ye_step_def Let_def)
    have cur: "year cur = ?yr" "fits_year (year_points xs ?yr) cur" using ih(3) Some by simp_all
    have "?yr \<in> fst ` set ?m" using Some by (metis map_of_eq_None_iff option.distinct(1))
    then have a: "distinct (map fst (AList.update ?yr (ye_update rate x cur) ?m))"
      and b: "fst ` set (AList.update ?yr (ye_update rate x cur) ?m)
               = (\<lambda>p. take 4 (month p)) ` set (xs @ [x])"
      using ih(1) ih(2) by (auto simp: distinct_update dom_update)
    have c: "year e = y \<and> fits_year (year_points (xs @ [x]) y) e"
      if "map_of (AList.update ?yr (ye_update rate x cur) ?m) y = Some e" for y e
    proof (cases "y = ?yr")
      case True
      then have e: "e = ye_update rate x cur" using that by (simp add: update_conv')
      have "year e = ?yr" using e cur(1) ye_update_fields [of rate x cur] by simp
      moreover have "fits_year (year_points xs ?yr @ [x]) e"
        unfolding e using cur(2) vx by (rule fits_year_snoc)
      ultimately show ?thesis using True by (simp add: year_points_snoc)
    next
      case False
      then have "map_of ?m y = Some e" using that by (simp add: update_conv')
      then show ?thesis using ih(3) False by (auto simp: year_points_snoc)
    qed
    show ?thesis unfolding st using a b c by blast
  qed
qed

lemma yearExtremes_fold:
  "yearExtremes ms rate = sort_key year (map snd (foldl (ye_step rate) [] ms))"
  by (simp add: yearExtremes_def)

lemma yearExtremes_entries:
  assumes "\<forall>p \<in> set ms. valueUSD p \<noteq> NaN" and "e \<in> set (yearExtremes ms rate)"
  shows "fits_year (year_points ms (year e)) e \<and> year e \<in> (\<lambda>p. take 4 (month p)) ` set ms"
proof -
  let ?m = "foldl (ye_step rate) [] ms"
  note inv = ye_fold_inv [OF assms(1), of rate]
  from assms(2) have "e \<in> snd ` set ?m" by (simp add: yearExtremes_fold)
  then obtain y where ye: "(y, e) \<in> set ?m" by force
  then have "map_of ?m y = Some e" using inv by simp
  then have "year e = y" "fits_year (year_points ms y) e" using inv by blast+
  moreover have "y \<in> fst ` set ?m" using ye by force
  ultimately show ?thesis using inv by simp
qed

lemma yearExtremes_years:
  assumes "\<forall>p \<in> set ms. valueUSD p \<noteq> NaN"
  shows "sorted (map year (yearExtremes ms rate))
       \<and> distinct (map year (yearExtremes ms rate))
       \<and> set (map year (yearExtremes ms rate)) = (\<lambda>p. take 4 (month p)) ` set ms"
proof -
  let ?m = "foldl (ye_step rate) [] ms"
  note inv = ye_fold_inv [OF assms(1), of rate]
  have key: "year (snd ye) = fst ye" if "ye \<in> set ?m" for ye
  proof -
    have "map_of ?m (fst ye) = Some (snd ye)" using that inv by simp
    then show ?thesis using inv by blast
  qed
  then have yk: "map year (map snd ?m) = map fst ?m" by simp
  have a: "sorted (map year (yearExtremes ms rate))"
    unfolding yearExtremes_fold by (rule sorted_sort_key)
  have d0: "distinct (map year (map snd ?m))" unfolding yk using inv by blast
  then have "distinct (map snd ?m) \<and> inj_on year (set (map snd ?m))"
    by (simp only: distinct_map)
  then have b: "distinct (map year (yearExtremes ms rate))"
    unfolding yearExtremes_fold by (simp add: distinct_map)
  have "set (map year (yearExtremes ms rate)) = set (map year (map snd ?m))"
    unfolding yearExtremes_fold by (simp only: set_map set_sort)
  then have "set (map year (yearExtremes ms rate)) = set (map fst ?m)"
    unfolding yk .
  then have c: "set (map year (yearExtremes ms rate)) = (\<lambda>p. take 4 (month p)) ` set ms"
    using inv by simp
  show ?thesis using a b c by blast
qed

lemma fits_year_first:
  assumes "map_option month (find (\<lambda>p. valueUSD p = v) ys) = Some m"
  shows "\<exists>i < length ys. valueUSD (ys ! i) = v \<and> month (ys ! i) = m
           \<and> (\<forall>j < i. valueUSD (ys ! j) \<noteq> v)"
proof -
  from assms obtain p where "find (\<lambda>p. valueUSD p = v) ys = Some p" "month p = m" by auto
  then show ?thesis by (auto simp: find_Some_iff)
qed

lemma year_points_year: "p \<in> set (year_points ms y) \<Longrightarrow> take 4 (month p) = y"
  by (simp add: year_points_def)

text \<open>
  C6. The annual table of a monthly series without \<open>NaN\<close> (such is every series the
  page builds) has one entry for each year of the series and no other, in ascending
  order of the years. The minimum and the maximum of an entry bound every value of
  its year; each is the value of a point of that year, the first in the order of the
  series to have that value, and the entry names the month of that point.
\<close>

theorem annual_extremes:
  assumes "\<forall>p \<in> set ms. valueUSD p \<noteq> NaN"
  shows "sorted (map year (yearExtremes ms rate))
       \<and> distinct (map year (yearExtremes ms rate))
       \<and> set (map year (yearExtremes ms rate)) = (\<lambda>p. take 4 (month p)) ` set ms
       \<and> (\<forall>e \<in> set (yearExtremes ms rate).
            (\<forall>p \<in> set (year_points ms (year e)).
               jle (minUSD e) (valueUSD p) \<and> jle (valueUSD p) (maxUSD e))
            \<and> (\<exists>i < length (year_points ms (year e)).
                  valueUSD (year_points ms (year e) ! i) = minUSD e
                  \<and> month (year_points ms (year e) ! i) = minMonth e
                  \<and> (\<forall>j < i. valueUSD (year_points ms (year e) ! j) \<noteq> minUSD e))
            \<and> (\<exists>i < length (year_points ms (year e)).
                  valueUSD (year_points ms (year e) ! i) = maxUSD e
                  \<and> month (year_points ms (year e) ! i) = maxMonth e
                  \<and> (\<forall>j < i. valueUSD (year_points ms (year e) ! j) \<noteq> maxUSD e))
            \<and> take 4 (minMonth e) = year e \<and> take 4 (maxMonth e) = year e)
       \<and> (\<forall>p \<in> set (withMoM (portfolioSeries perSymbol)). valueUSD p \<noteq> NaN)"
proof -
  have ent: "(\<forall>p \<in> set (year_points ms (year e)).
               jle (minUSD e) (valueUSD p) \<and> jle (valueUSD p) (maxUSD e))
            \<and> (\<exists>i < length (year_points ms (year e)).
                  valueUSD (year_points ms (year e) ! i) = minUSD e
                  \<and> month (year_points ms (year e) ! i) = minMonth e
                  \<and> (\<forall>j < i. valueUSD (year_points ms (year e) ! j) \<noteq> minUSD e))
            \<and> (\<exists>i < length (year_points ms (year e)).
                  valueUSD (year_points ms (year e) ! i) = maxUSD e
                  \<and> month (year_points ms (year e) ! i) = maxMonth e
                  \<and> (\<forall>j < i. valueUSD (year_points ms (year e) ! j) \<noteq> maxUSD e))
            \<and> take 4 (minMonth e) = year e \<and> take 4 (maxMonth e) = year e"
    if e: "e \<in> set (yearExtremes ms rate)" for e
  proof -
    let ?ys = "year_points ms (year e)"
    have f: "fits_year ?ys e" using yearExtremes_entries [OF assms e] by blast
    have bnd: "\<forall>p \<in> set ?ys. jle (minUSD e) (valueUSD p) \<and> jle (valueUSD p) (maxUSD e)"
      using f by (simp add: fits_year_def list_all_iff)
    from f have "map_option month (find (\<lambda>p. valueUSD p = minUSD e) ?ys) = Some (minMonth e)"
      by (simp add: fits_year_def)
    from fits_year_first [OF this] obtain i where i: "i < length ?ys"
      "valueUSD (?ys ! i) = minUSD e" "month (?ys ! i) = minMonth e"
      "\<forall>j < i. valueUSD (?ys ! j) \<noteq> minUSD e" by blast
    from f have "map_option month (find (\<lambda>p. valueUSD p = maxUSD e) ?ys) = Some (maxMonth e)"
      by (simp add: fits_year_def)
    from fits_year_first [OF this] obtain k where k: "k < length ?ys"
      "valueUSD (?ys ! k) = maxUSD e" "month (?ys ! k) = maxMonth e"
      "\<forall>j < k. valueUSD (?ys ! j) \<noteq> maxUSD e" by blast
    have "?ys ! i \<in> set ?ys" "?ys ! k \<in> set ?ys" using i(1) k(1) by simp_all
    then have "take 4 (month (?ys ! i)) = year e" "take 4 (month (?ys ! k)) = year e"
      using year_points_year by blast+
    then have y: "take 4 (minMonth e) = year e" "take 4 (maxMonth e) = year e"
      using i(3) k(3) by simp_all
    show ?thesis using bnd i k y by blast
  qed
  have pos: "\<forall>p \<in> set (withMoM (portfolioSeries perSymbol)). valueUSD p \<noteq> NaN"
    using withMoM_positive jgt_not_NaN by blast
  show ?thesis using yearExtremes_years [OF assms, of rate] ent pos by blast
qed

lemma two_years_table:
  "yearExtremes two_years None =
     [\<lparr>year = ''2019'', minUSD = Fin 95, maxUSD = Fin 95, minMonth = ''2019-12'',
       maxMonth = ''2019-12'', minEUR = None, maxEUR = None\<rparr>,
      \<lparr>year = ''2020'', minUSD = Fin 90, maxUSD = Fin 100, minMonth = ''2020-02'',
       maxMonth = ''2020-01'', minEUR = None, maxEUR = None\<rparr>]"
  by (simp add: two_years_def withMoM_def yearExtremes_def ye_step_def ye_update_def eur_of_def
      jgt_def Let_def upt_rec)

theorem annual_extremes_witness:
  "list_all (\<lambda>p. valueUSD p \<noteq> NaN) two_years
   \<and> map valueUSD two_years = [Fin 95, Fin 100, Fin 90, Fin 90, Fin 100]
   \<and> map year (yearExtremes two_years None) = [''2019'', ''2020'']
   \<and> sorted (map year (yearExtremes two_years None))
   \<and> map minMonth (yearExtremes two_years None) = [''2019-12'', ''2020-02'']
   \<and> map maxMonth (yearExtremes two_years None) = [''2019-12'', ''2020-01'']
   \<and> map month (year_points two_years ''2020'') = [''2020-01'', ''2020-02'', ''2020-03'', ''2020-04'']
   \<and> (\<exists>e. e \<in> set (yearExtremes two_years None) \<and> year e = ''2020''
          \<and> list_all (\<lambda>p. jle (minUSD e) (valueUSD p) \<and> jle (valueUSD p) (maxUSD e))
               (year_points two_years (year e))
          \<and> take 4 (minMonth e) = year e \<and> take 4 (maxMonth e) = year e)"
proof -
  have v: "map valueUSD two_years = [Fin 95, Fin 100, Fin 90, Fin 90, Fin 100]"
    by (simp add: two_years_def withMoM_def Let_def upt_rec)
  have h: "\<forall>p \<in> set two_years. valueUSD p \<noteq> NaN"
  proof
    fix p assume "p \<in> set two_years"
    then have "valueUSD p \<in> set (map valueUSD two_years)" by simp
    then show "valueUSD p \<noteq> NaN" unfolding v by auto
  qed
  note t = annual_extremes [OF h, of None]
  let ?e = "\<lparr>year = ''2020'', minUSD = Fin 90, maxUSD = Fin 100, minMonth = ''2020-02'',
       maxMonth = ''2020-01'', minEUR = None, maxEUR = None\<rparr>"
  have m: "?e \<in> set (yearExtremes two_years None)" by (simp add: two_years_table)
  have s: "sorted (map year (yearExtremes two_years None))" using t by blast
  from t m have
    "(\<forall>p \<in> set (year_points two_years (year ?e)).
         jle (minUSD ?e) (valueUSD p) \<and> jle (valueUSD p) (maxUSD ?e))
     \<and> take 4 (minMonth ?e) = year ?e \<and> take 4 (maxMonth ?e) = year ?e"
    by blast
  then have "list_all (\<lambda>p. jle (minUSD ?e) (valueUSD p) \<and> jle (valueUSD p) (maxUSD ?e))
               (year_points two_years (year ?e))
     \<and> take 4 (minMonth ?e) = year ?e \<and> take 4 (maxMonth ?e) = year ?e"
    unfolding list_all_iff by blast
  then have ex: "\<exists>e. e \<in> set (yearExtremes two_years None) \<and> year e = ''2020''
          \<and> list_all (\<lambda>p. jle (minUSD e) (valueUSD p) \<and> jle (valueUSD p) (maxUSD e))
               (year_points two_years (year e))
          \<and> take 4 (minMonth e) = year e \<and> take 4 (maxMonth e) = year e"
    using m by (intro exI [of _ ?e]) simp
  have la: "list_all (\<lambda>p. valueUSD p \<noteq> NaN) two_years" using h by (simp only: list_all_iff)
  have yp: "map month (year_points two_years ''2020'')
      = [''2020-01'', ''2020-02'', ''2020-03'', ''2020-04'']"
    by (simp add: year_points_def two_years_def withMoM_def Let_def upt_rec)
  have tb: "map year (yearExtremes two_years None) = [''2019'', ''2020'']"
    "map minMonth (yearExtremes two_years None) = [''2019-12'', ''2020-02'']"
    "map maxMonth (yearExtremes two_years None) = [''2019-12'', ''2020-01'']"
    by (simp_all add: two_years_table)
  show ?thesis using la v tb s yp ex by blast
qed

section \<open>The recovery search\<close>

lemma findIndex_Some:
  "findIndex P xs = Some i \<longleftrightarrow> i < length xs \<and> P (xs ! i) \<and> (\<forall>j < i. \<not> P (xs ! j))"
proof (induction xs arbitrary: i)
  case Nil
  show ?case by simp
next
  case (Cons x xs)
  show ?case
  proof (cases "P x")
    case True
    then show ?thesis by (cases i) auto
  next
    case False
    show ?thesis
    proof (cases i)
      case 0
      then show ?thesis using False by auto
    next
      case (Suc k)
      have "(\<forall>j < Suc k. \<not> P ((x # xs) ! j)) = (\<forall>j < k. \<not> P (xs ! j))"
        using False by (auto simp: less_Suc_eq_0_disj)
      then show ?thesis using False Suc Cons.IH [of k] by auto
    qed
  qed
qed

lemma findIndex_None: "findIndex P xs = None \<longleftrightarrow> (\<forall>x \<in> set xs. \<not> P x)"
  by (induction xs) auto

text \<open>
  The search starts right after the first point that carries the trough's month and
  returns the month of the first point from there on whose value reaches the peak it is
  given, or nothing when there is no such point.
\<close>

lemma recovery_search_first:
  assumes "findIndex (\<lambda>m. month m = tm) ms = Some idx"
  shows "(recovery_search ms tm pk = None
            \<longleftrightarrow> (\<forall>i. idx < i \<and> i < length ms \<longrightarrow> \<not> jge (valueUSD (ms ! i)) pk))
       \<and> (\<forall>m. recovery_search ms tm pk = Some m \<longrightarrow>
             (\<exists>i. idx < i \<and> i < length ms \<and> month (ms ! i) = m \<and> jge (valueUSD (ms ! i)) pk
                  \<and> (\<forall>j. idx < j \<and> j < i \<longrightarrow> \<not> jge (valueUSD (ms ! j)) pk)))"
proof -
  let ?P = "\<lambda>p. jge (valueUSD p) pk"
  let ?d = "drop (idx + 1) ms"
  have rs: "recovery_search ms tm pk = map_option month (find ?P ?d)"
    using assms by (simp add: recovery_search_def)
  have le: "idx + 1 \<le> length ms"
    using assms by (simp add: findIndex_Some)
  have nd: "?d ! k = ms ! (idx + 1 + k)" for k
    using le by (rule nth_drop)
  have ld: "length ?d = length ms - (idx + 1)" by (rule length_drop)
  have a1: "\<not> ?P (ms ! i)" if n: "find ?P ?d = None" and i: "idx < i" "i < length ms" for i
  proof -
    define k where "k = i - (idx + 1)"
    have ik: "idx + 1 + k = i" using i(1) by (simp add: k_def)
    have kl: "k < length ?d" unfolding ld using i ik by arith
    have "?d ! k = ms ! i" using nd [of k] by (simp only: ik)
    then have "ms ! i \<in> set ?d" using kl by (metis nth_mem)
    then show ?thesis using n by (simp add: find_None_iff)
  qed
  have a2: "find ?P ?d = None" if h: "\<forall>i. idx < i \<and> i < length ms \<longrightarrow> \<not> ?P (ms ! i)"
  proof -
    have "\<not> ?P x" if "x \<in> set ?d" for x
    proof -
      from that obtain k where k: "k < length ?d" "?d ! k = x" by (metis in_set_conv_nth)
      have "idx < idx + 1 + k" by simp
      moreover have "idx + 1 + k < length ms" using k(1) unfolding ld by arith
      moreover have "ms ! (idx + 1 + k) = x" using nd [of k] k(2) by simp
      ultimately show ?thesis using h by blast
    qed
    then show ?thesis by (simp add: find_None_iff)
  qed
  have n: "recovery_search ms tm pk = None \<longleftrightarrow> find ?P ?d = None"
    unfolding rs by simp
  have a: "recovery_search ms tm pk = None
            \<longleftrightarrow> (\<forall>i. idx < i \<and> i < length ms \<longrightarrow> \<not> ?P (ms ! i))"
    unfolding n using a1 a2 by blast
  have b: "\<exists>i. idx < i \<and> i < length ms \<and> month (ms ! i) = m \<and> ?P (ms ! i)
                  \<and> (\<forall>j. idx < j \<and> j < i \<longrightarrow> \<not> ?P (ms ! j))"
    if "recovery_search ms tm pk = Some m" for m
  proof -
    from that obtain p where p: "find ?P ?d = Some p" "month p = m"
      unfolding rs by auto
    from p(1) obtain k where k: "k < length ?d" "?P (?d ! k)" "p = ?d ! k"
      "\<forall>j < k. \<not> ?P (?d ! j)"
      unfolding find_Some_iff by blast
    let ?i = "idx + 1 + k"
    have i1: "idx < ?i" by simp
    have i2: "?i < length ms" using k(1) unfolding ld by arith
    have i3: "ms ! ?i = p" using nd [of k] k(3) by simp
    have i4: "\<not> ?P (ms ! j)" if j: "idx < j" "j < ?i" for j
    proof -
      define l where "l = j - (idx + 1)"
      have jl: "idx + 1 + l = j" using j(1) by (simp add: l_def)
      have "l < k" using j(2) jl by arith
      then have "\<not> ?P (?d ! l)" using k(4) by blast
      moreover have "?d ! l = ms ! j" using nd [of l] by (simp only: jl)
      ultimately show ?thesis by simp
    qed
    have i5: "month (ms ! ?i) = m" using i3 p(2) by simp
    have i6: "?P (ms ! ?i)" using i3 k(2) k(3) by simp
    have i7: "\<forall>j. idx < j \<and> j < ?i \<longrightarrow> \<not> ?P (ms ! j)"
    proof (intro allI impI)
      fix j assume j: "idx < j \<and> j < ?i"
      show "\<not> ?P (ms ! j)" by (rule i4 [OF conjunct1 [OF j] conjunct2 [OF j]])
    qed
    show ?thesis by (rule exI [of _ ?i]) (intro conjI i1 i2 i5 i6 i7)
  qed
  show ?thesis
  proof (intro conjI allI impI)
    show "recovery_search ms tm pk = None
            \<longleftrightarrow> (\<forall>i. idx < i \<and> i < length ms \<longrightarrow> \<not> ?P (ms ! i))"
      by (rule a)
  next
    fix m assume "recovery_search ms tm pk = Some m"
    then show "\<exists>i. idx < i \<and> i < length ms \<and> month (ms ! i) = m \<and> ?P (ms ! i)
                  \<and> (\<forall>j. idx < j \<and> j < i \<longrightarrow> \<not> ?P (ms ! j))"
      by (rule b)
  qed
qed

lemma peak_fold_fst:
  "fst (foldl (\<lambda>(s, pk) p. let s' = scan_step s p
                             in (s', if worstDD s' = worstDD s then pk else peak s'))
          (s0, pk0) xs) = foldl scan_step s0 xs"
  by (induction xs arbitrary: s0 pk0) (simp_all add: Let_def)

lemma peak_at_drawdown_snoc:
  "peak_at_drawdown p0 (xs @ [x]) =
     (if worstDD (scan_step (foldl scan_step (scan_init p0) xs) x)
           = worstDD (foldl scan_step (scan_init p0) xs)
      then peak_at_drawdown p0 xs
      else peak (scan_step (foldl scan_step (scan_init p0) xs) x))"
proof -
  let ?g = "\<lambda>(s, pk) p. let s' = scan_step s p
                         in (s', if worstDD s' = worstDD s then pk else peak s')"
  obtain a b where ab: "foldl ?g (scan_init p0, valueUSD p0) xs = (a, b)" by fastforce
  have "a = foldl scan_step (scan_init p0) xs"
    using peak_fold_fst [of "scan_init p0" "valueUSD p0" xs] ab by simp
  then show ?thesis using ab by (simp add: peak_at_drawdown_def Let_def)
qed

text \<open>
  The peak kept for the specification is the running peak at the trough, the first
  point with the worst decline; without any decline it is the first value.
\<close>

lemma peak_at_drawdown_trough:
  "jlt (worstDD (foldl scan_step (scan_init p0) xs)) (Fin 0) \<Longrightarrow>
   \<exists>i < length xs. jgt (peak_at p0 xs i) (Fin 0)
      \<and> worstDD (foldl scan_step (scan_init p0) xs) = decline_at p0 xs i
      \<and> sc_troughMonth (foldl scan_step (scan_init p0) xs) = month (xs ! i)
      \<and> (\<forall>j < i. jgt (peak_at p0 xs j) (Fin 0) \<longrightarrow>
            \<not> jle (decline_at p0 xs j) (decline_at p0 xs i))
      \<and> peak_at_drawdown p0 xs = peak_at p0 xs i"
proof (induction xs rule: rev_induct)
  case Nil
  then show ?case by (simp add: scan_init_def)
next
  case (snoc x xs)
  let ?s = "foldl scan_step (scan_init p0) xs"
  let ?s' = "scan_step ?s x"
  let ?dd = "jsub (jdiv (valueUSD x) (peak ?s')) (Fin 1)"
  let ?n = "length xs"
  show ?case
  proof (cases "jgt (peak ?s') (Fin 0) \<and> jlt ?dd (worstDD ?s)")
    case True
    have u: "worstDD ?s' = ?dd" "sc_troughMonth ?s' = month x"
      using scan_step_update [of ?s x] True by simp_all
    have "worstDD ?s' \<noteq> worstDD ?s" using True u(1) jlt_neq by metis
    then have pd: "peak_at_drawdown p0 (xs @ [x]) = peak_at p0 (xs @ [x]) ?n"
      by (simp add: peak_at_drawdown_snoc peak_at_last)
    have first: "\<not> jle (decline_at p0 (xs @ [x]) j) (decline_at p0 (xs @ [x]) ?n)"
      if j: "j < ?n" and pj: "jgt (peak_at p0 (xs @ [x]) j) (Fin 0)" for j
    proof
      assume "jle (decline_at p0 (xs @ [x]) j) (decline_at p0 (xs @ [x]) ?n)"
      then have "jle (decline_at p0 xs j) ?dd"
        using j by (simp add: decline_at_snoc decline_at_last)
      then have "jlt (decline_at p0 xs j) (worstDD ?s)" using True jle_jlt_trans by blast
      moreover have "jgt (peak_at p0 xs j) (Fin 0)" using pj j by (simp add: peak_at_snoc)
      ultimately show False using scan_worst_least [OF j] by blast
    qed
    have "?n < length (xs @ [x])" by simp
    moreover have "jgt (peak_at p0 (xs @ [x]) ?n) (Fin 0)" using True by (simp add: peak_at_last)
    moreover have "worstDD (foldl scan_step (scan_init p0) (xs @ [x])) = decline_at p0 (xs @ [x]) ?n"
      using u by (simp add: decline_at_last)
    moreover have "sc_troughMonth (foldl scan_step (scan_init p0) (xs @ [x])) = month ((xs @ [x]) ! ?n)"
      using u by simp
    ultimately show ?thesis using first pd by blast
  next
    case False
    have k: "worstDD ?s' = worstDD ?s" "sc_troughMonth ?s' = sc_troughMonth ?s"
      using scan_step_keep [OF False] by simp_all
    have pd: "peak_at_drawdown p0 (xs @ [x]) = peak_at_drawdown p0 xs"
      using k(1) by (simp add: peak_at_drawdown_snoc)
    have "jlt (worstDD ?s) (Fin 0)" using snoc.prems k by simp
    from snoc.IH [OF this] obtain i where i: "i < ?n" "jgt (peak_at p0 xs i) (Fin 0)"
      "worstDD ?s = decline_at p0 xs i" "sc_troughMonth ?s = month (xs ! i)"
      "\<forall>j < i. jgt (peak_at p0 xs j) (Fin 0) \<longrightarrow> \<not> jle (decline_at p0 xs j) (decline_at p0 xs i)"
      "peak_at_drawdown p0 xs = peak_at p0 xs i"
      by blast
    have "i < length (xs @ [x])" using i(1) by simp
    moreover have "jgt (peak_at p0 (xs @ [x]) i) (Fin 0)" using i by (simp add: peak_at_snoc)
    moreover have "worstDD (foldl scan_step (scan_init p0) (xs @ [x])) = decline_at p0 (xs @ [x]) i"
      using i k by (simp add: decline_at_snoc)
    moreover have "sc_troughMonth (foldl scan_step (scan_init p0) (xs @ [x])) = month ((xs @ [x]) ! i)"
      using i k by (simp add: nth_append)
    moreover have "\<forall>j < i. jgt (peak_at p0 (xs @ [x]) j) (Fin 0) \<longrightarrow>
            \<not> jle (decline_at p0 (xs @ [x]) j) (decline_at p0 (xs @ [x]) i)"
      using i by (simp add: peak_at_snoc decline_at_snoc)
    moreover have "peak_at_drawdown p0 (xs @ [x]) = peak_at p0 (xs @ [x]) i"
      using pd i by (simp add: peak_at_snoc)
    ultimately show ?thesis by blast
  qed
qed

lemma rebound_from_prices:
  "monthlySeries (computeMonthlyDrops rebound_net rebound_state) = rebound"
  by (simp add: run_simps ticker_simps rebound_net_def rebound_state_def state_of_def
      groupByMonthEnd_def portfolioSeries_def monthsSorted_def monthValue_def set_add_def
      rebound_def withMoM_def drops_of_def jgt_def jsub_def upt_rec)

lemma scan_trough_in_range:
  "sc_troughMonth (drawdown_scan p0 (p0 # rest)) \<in> month ` set (p0 # rest)"
proof (cases "jlt (worstDD (foldl scan_step (scan_init p0) (p0 # rest))) (Fin 0)")
  case True
  from scan_trough_attains [OF True] obtain i where i: "i < length (p0 # rest)"
    "sc_troughMonth (foldl scan_step (scan_init p0) (p0 # rest)) = month ((p0 # rest) ! i)"
    by blast
  have "(p0 # rest) ! i \<in> set (p0 # rest)" using i(1) by (rule nth_mem)
  then show ?thesis unfolding drawdown_scan_def i(2) by (rule imageI)
next
  case False
  from scan_no_drawdown [OF False]
  have "sc_troughMonth (foldl scan_step (scan_init p0) (p0 # rest)) = month p0" by blast
  then show ?thesis unfolding drawdown_scan_def by simp
qed

text \<open>
  What the page reports as the recovery of an event: the search runs in the whole
  series from the first point that carries the trough's month, and compares with the
  peak the loop holds when it ends.
\<close>

lemma event_recovery:
  assumes "in_range ev ms = p0 # rest"
  shows "\<exists>idx < length ms.
           month (ms ! idx) = sc_troughMonth (drawdown_scan p0 (p0 # rest))
           \<and> (\<forall>j < idx. month (ms ! j) \<noteq> sc_troughMonth (drawdown_scan p0 (p0 # rest)))
           \<and> (recoveryMonth (event_perf ms ev) = None
                \<longleftrightarrow> (\<forall>i. idx < i \<and> i < length ms \<longrightarrow>
                       \<not> jge (valueUSD (ms ! i)) (peak (drawdown_scan p0 (p0 # rest)))))
           \<and> (\<forall>m. recoveryMonth (event_perf ms ev) = Some m \<longrightarrow>
                 (\<exists>i. idx < i \<and> i < length ms \<and> month (ms ! i) = m
                    \<and> jge (valueUSD (ms ! i)) (peak (drawdown_scan p0 (p0 # rest)))
                    \<and> (\<forall>j. idx < j \<and> j < i \<longrightarrow>
                          \<not> jge (valueUSD (ms ! j)) (peak (drawdown_scan p0 (p0 # rest))))))"
proof -
  let ?s = "drawdown_scan p0 (p0 # rest)"
  let ?tm = "sc_troughMonth ?s"
  have "?tm \<in> month ` set (in_range ev ms)" unfolding assms by (rule scan_trough_in_range)
  then have "?tm \<in> month ` set ms" by (auto simp: in_range_def)
  then have "findIndex (\<lambda>m. month m = ?tm) ms \<noteq> None"
    unfolding findIndex_None by auto
  then obtain idx where idx: "findIndex (\<lambda>m. month m = ?tm) ms = Some idx" by blast
  then have i: "idx < length ms" "month (ms ! idx) = ?tm" "\<forall>j < idx. month (ms ! j) \<noteq> ?tm"
    unfolding findIndex_Some by simp_all
  have r: "recoveryMonth (event_perf ms ev) = recovery_search ms ?tm (peak ?s)"
    using event_perf_nonempty [OF assms] by blast
  note f = recovery_search_first [OF idx, of "peak ?s"]
  show ?thesis
    unfolding r by (rule exI [of _ idx]) (intro conjI i f [THEN conjunct1] f [THEN conjunct2])
qed

text \<open>
  C2, at a series that falls and then rebounds above its old peak inside the window
  (100, 50, 120, 200, as one share with these month-end closes gives it): the worst
  drawdown is recorded at 50 under the peak 100, and the first later month with a value
  of at least 100 is 2000-05; the loop goes on to raise its peak to 200, the search
  compares with that, and the recovery reported is 2000-06.
\<close>

theorem recovery_after_rebound:
  "monthlySeries (computeMonthlyDrops rebound_net rebound_state) = rebound
   \<and> in_range dotcom rebound = rebound
   \<and> map month rebound = [''2000-03'', ''2000-04'', ''2000-05'', ''2000-06'']
   \<and> map valueUSD rebound = [Fin 100, Fin 50, Fin 120, Fin 200]
   \<and> maxDrawdown (event_perf rebound dotcom) = Some (Fin (- 1 / 2))
   \<and> troughMonth (event_perf rebound dotcom) = Some ''2000-04''
   \<and> peak_at_drawdown (hd rebound) rebound = Fin 100
   \<and> recovery_search rebound ''2000-04'' (peak_at_drawdown (hd rebound) rebound) = Some ''2000-05''
   \<and> peak (drawdown_scan (hd rebound) rebound) = Fin 200
   \<and> recoveryMonth (event_perf rebound dotcom) = Some ''2000-06''"
proof -
  have e: "in_range dotcom rebound = rebound
   \<and> map month rebound = [''2000-03'', ''2000-04'', ''2000-05'', ''2000-06'']
   \<and> map valueUSD rebound = [Fin 100, Fin 50, Fin 120, Fin 200]
   \<and> maxDrawdown (event_perf rebound dotcom) = Some (Fin (- 1 / 2))
   \<and> troughMonth (event_perf rebound dotcom) = Some ''2000-04''
   \<and> peak_at_drawdown (hd rebound) rebound = Fin 100
   \<and> recovery_search rebound ''2000-04'' (peak_at_drawdown (hd rebound) rebound) = Some ''2000-05''
   \<and> peak (drawdown_scan (hd rebound) rebound) = Fin 200
   \<and> recoveryMonth (event_perf rebound dotcom) = Some ''2000-06''"
    by (simp add: rebound_def peak_at_drawdown_def event_simps)
  show ?thesis by (rule conjI [OF rebound_from_prices e])
qed

end
